theory Spec2Isabelle
  imports Complex_Main "HOL-Library.Word"
begin

section \<open>Double-precision arithmetic\<close>

text \<open>
  The engine of \<open>enhanced_video_transitions.py\<close> is embedded function by function.
  Python's unbounded integers are \<open>int\<close>. A Python float is an IEEE-754 double: a real
  with a significand of 53 bits, and every float operation returns the double nearest
  to the exact result, a tie going to the even significand.

  \<open>cv_round\<close> rounds a real to the nearest integer, ties to even. \<open>fl x\<close> is the double
  nearest to \<open>x\<close>: \<open>x\<close> is divided by the unit in the last place of its binade, which
  leaves a significand between \<open>2^52\<close> and \<open>2^53\<close>, and rounded there. The exponent is not
  bounded (no overflow and no subnormal numbers).
\<close>

definition cv_round :: "real \<Rightarrow> int" where
  "cv_round x =
     (let f = \<lfloor>x\<rfloor>; d = x - of_int f
      in if d < 1/2 then f else if 1/2 < d then f + 1 else if even f then f else f + 1)"

definition fl :: "real \<Rightarrow> real" where
  "fl x = (if x = 0 then 0
           else let u = 2 powr (of_int \<lfloor>log 2 \<bar>x\<bar>\<rfloor> - 52)
                in of_int (cv_round (x / u)) * u)"

text \<open>
  \<open>math.pi\<close> is the double nearest to \<open>pi\<close>, \<open>0x1.921fb54442d18p+1\<close>. \<open>math.cos\<close> is the
  cosine of the C library, taken as correctly rounded: the double nearest to the cosine
  of its argument.
\<close>

definition math_pi :: real where
  "math_pi = 884279719003555 / 2 ^ 48"

definition math_cos :: "real \<Rightarrow> real" where
  "math_cos x = fl (cos x)"

section \<open>Scalar functions of \<open>EnhancedVideoTransitions\<close>\<close>

text \<open>
  The methods below do not read \<open>self\<close>, so the instance is not a parameter of their
  models. The easing, the progress of a step and the offset of the whip pan are computed
  with the rounding of each float operation; the intensity pulse, the kernel sizes and
  the pixel weights are computed over the reals.
\<close>

text \<open>Python's \<open>int(x)\<close> on a float: truncation towards zero.\<close>

definition py_int :: "real \<Rightarrow> int" where
  "py_int x = (if 0 \<le> x then \<lfloor>x\<rfloor> else \<lceil>x\<rceil>)"

text \<open>
  \<open>cosine_interpolation\<close> (lines 25-27): \<open>(1 - math.cos(progress * math.pi)) / 2\<close>, a
  product, a cosine, a difference and a quotient of floats.
\<close>

definition cosine_interpolation :: "real \<Rightarrow> real" where
  "cosine_interpolation progress = fl (fl (1 - math_cos (fl (progress * math_pi))) / 2)"

text \<open>\<open>progressive_blur_intensity\<close> (lines 29-31).\<close>

definition progressive_blur_intensity :: "real \<Rightarrow> real" where
  "progressive_blur_intensity progress = 4.0 * progress * (1.0 - progress)"

text \<open>\<open>motion_blur_kernel_size\<close> (lines 33-35).\<close>

definition motion_blur_kernel_size :: "real \<Rightarrow> int" where
  "motion_blur_kernel_size motion_intensity = max 3 (py_int (motion_intensity * 30) + 1)"

text \<open>
  The kernel size that \<open>apply_progressive_blur\<close> hands to the Gaussian filter
  (lines 44-46 of its body).
\<close>

definition apply_progressive_blur_kernel_size :: "real \<Rightarrow> int" where
  "apply_progressive_blur_kernel_size blur_intensity =
     (let kernel_size = max 3 (py_int (blur_intensity * 30) + 1)
      in if kernel_size mod 2 = 0 then kernel_size + 1 else kernel_size)"

text \<open>
  The kernel size that \<open>apply_motion_blur\<close> builds its kernel with (lines 51-53 of its
  body).
\<close>

definition apply_motion_blur_kernel_size :: "real \<Rightarrow> int" where
  "apply_motion_blur_kernel_size motion_intensity =
     (let kernel_size = motion_blur_kernel_size motion_intensity
      in if kernel_size mod 2 = 0 then kernel_size + 1 else kernel_size)"

text \<open>
  The specification's \<open>kernel_size_from_intensity\<close>, written from its words:
  \<open>max(3, floor(intensity * 30) + 1)\<close>, rounded up to the next odd value if even.
\<close>

definition kernel_size_from_intensity :: "real \<Rightarrow> int" where
  "kernel_size_from_intensity intensity =
     (let k = max 3 (\<lfloor>intensity * 30\<rfloor> + 1) in if even k then k + 1 else k)"

section \<open>Frames and the image library\<close>

text \<open>
  A frame is what \<open>cv2.VideoCapture.read\<close> yields: rows of pixels, a pixel being three
  8-bit samples (blue, green, red). A convolution kernel is a matrix of reals, given by
  its rows.
\<close>

type_synonym u8 = "8 word"
type_synonym pixel = "u8 \<times> u8 \<times> u8"
type_synonym frame = "pixel list list"
type_synonym kernel = "real list list"

text \<open>
  The exceptions the engine can end with: Python's \<open>ZeroDivisionError\<close>, OpenCV's
  \<open>cv2.error\<close> (the specification's \<open>DimensionMismatch\<close>) and numpy's \<open>ValueError\<close>.
\<close>

datatype error = ZeroDivisionError | CvError | ValueError

text \<open>
  An overlay text is an f-string: literal pieces, floats printed with a number of
  decimals (\<open>{x:.2f}\<close>) and integers.
\<close>

datatype fmt = Lit string | Flt real nat | Dec int

text \<open>
  The OpenCV operations whose pixel arithmetic is library code outside the source
  (interpolation, Gaussian and box filtering with border handling, font rendering) are
  parameters of the model: \<open>cv2.resize(src, dsize)\<close>, \<open>cv2.GaussianBlur(src, ksize, sigmaX)\<close>,
  \<open>cv2.filter2D(src, ddepth, kernel)\<close> and
  \<open>cv2.putText(img, text, org, fontFace, fontScale, color, thickness)\<close>, which draws into
  \<open>img\<close> and is modelled as returning the drawn image.
\<close>

record cv2 =
  resize :: "frame \<Rightarrow> int \<times> int \<Rightarrow> frame"
  GaussianBlur :: "frame \<Rightarrow> int \<times> int \<Rightarrow> real \<Rightarrow> frame"
  filter2D :: "frame \<Rightarrow> int \<Rightarrow> kernel \<Rightarrow> frame"
  putText :: "frame \<Rightarrow> fmt list \<Rightarrow> int \<times> int \<Rightarrow> int \<Rightarrow> real \<Rightarrow> int \<times> int \<times> int \<Rightarrow> int \<Rightarrow> frame"

definition FONT_HERSHEY_SIMPLEX :: int where
  "FONT_HERSHEY_SIMPLEX = 0"

text \<open>The instance state of \<open>EnhancedVideoTransitions\<close> (\<open>__init__\<close>, lines 20-23).\<close>

record EnhancedVideoTransitions =
  output_width :: int
  output_height :: int
  fps :: int

text \<open>
  Modelled from the spec: \<open>cv2.addWeighted\<close> is OpenCV library code, absent from the
  source. Section 4.2 of the specification gives the per-pixel combination
  \<open>frameA * (1 - weight) + frameB * weight\<close>, rounded and clamped to the valid sample
  range, failing on frames of unequal dimensions. OpenCV computes
  \<open>saturate_cast<uchar>(src1 * alpha + src2 * beta + gamma)\<close>, rounding to the nearest
  integer with ties to even (\<open>cv_round\<close>).
\<close>

definition saturate_u8 :: "int \<Rightarrow> u8" where
  "saturate_u8 n = word_of_int (max 0 (min 255 n))"

definition weighted_sample :: "u8 \<Rightarrow> real \<Rightarrow> u8 \<Rightarrow> real \<Rightarrow> real \<Rightarrow> u8" where
  "weighted_sample a alpha b beta gamma =
     saturate_u8 (cv_round (of_int (uint a) * alpha + of_int (uint b) * beta + gamma))"

fun weighted_pixel :: "real \<Rightarrow> real \<Rightarrow> real \<Rightarrow> pixel \<Rightarrow> pixel \<Rightarrow> pixel" where
  "weighted_pixel alpha beta gamma (b1, g1, r1) (b2, g2, r2) =
     (weighted_sample b1 alpha b2 beta gamma,
      weighted_sample g1 alpha g2 beta gamma,
      weighted_sample r1 alpha r2 beta gamma)"

definition addWeighted :: "frame \<Rightarrow> real \<Rightarrow> frame \<Rightarrow> real \<Rightarrow> real \<Rightarrow> error + frame" where
  "addWeighted src1 alpha src2 beta gamma =
     (if map length src1 = map length src2
      then Inr (map2 (map2 (weighted_pixel alpha beta gamma)) src1 src2)
      else Inl CvError)"

text \<open>
  numpy: \<open>np.zeros((rows, cols))\<close>, the slice assignments \<open>kernel[i, :] = v\<close> and
  \<open>kernel[:, j] = v\<close> (the engine only assigns row 0 of a one-row kernel and column 0 of a
  one-column kernel, which exist), and \<open>np.hstack\<close> of two frames, which fails when the
  row counts differ.
\<close>

definition np_zeros :: "nat \<times> nat \<Rightarrow> kernel" where
  "np_zeros shape = replicate (fst shape) (replicate (snd shape) 0)"

definition assign_row :: "kernel \<Rightarrow> nat \<Rightarrow> real \<Rightarrow> kernel" where
  "assign_row k i v = k[i := map (\<lambda>_. v) (k ! i)]"

definition assign_column :: "kernel \<Rightarrow> nat \<Rightarrow> real \<Rightarrow> kernel" where
  "assign_column k j v = map (\<lambda>row. row[j := v]) k"

definition np_hstack :: "frame \<Rightarrow> frame \<Rightarrow> error + frame" where
  "np_hstack a b = (if length a = length b then Inr (map2 (@) a b) else Inl ValueError)"

text \<open>
  Modelled from the spec: \<open>np.roll\<close> is numpy library code, absent from the source.
  Section 4.4 of the specification (\<open>cyclic_shift\<close>): content moves by \<open>shift\<close> positions
  along the axis, and what leaves at one edge comes back in at the other. \<open>axis=0\<close> moves
  the rows of a frame, \<open>axis=1\<close> moves the pixels within every row.
\<close>

definition roll_list :: "int \<Rightarrow> 'a list \<Rightarrow> 'a list" where
  "roll_list shift xs =
     (if xs = [] then [] else rotate (nat ((- shift) mod int (length xs))) xs)"

definition np_roll_axis0 :: "frame \<Rightarrow> int \<Rightarrow> frame" where
  "np_roll_axis0 a shift = roll_list shift a"

definition np_roll_axis1 :: "frame \<Rightarrow> int \<Rightarrow> frame" where
  "np_roll_axis1 a shift = map (roll_list shift) a"

section \<open>Blending and blurring\<close>

text \<open>\<open>enhanced_blend_frames\<close> (lines 37-40).\<close>

definition enhanced_blend_frames :: "frame \<Rightarrow> frame \<Rightarrow> real \<Rightarrow> error + frame" where
  "enhanced_blend_frames frame1 frame2 alpha =
     (let smooth_alpha = cosine_interpolation alpha
      in addWeighted frame1 (1.0 - smooth_alpha) frame2 smooth_alpha 0)"

text \<open>\<open>apply_progressive_blur\<close> (lines 42-47).\<close>

definition apply_progressive_blur :: "cv2 \<Rightarrow> frame \<Rightarrow> real \<Rightarrow> frame" where
  "apply_progressive_blur cv frame blur_intensity =
     (let kernel_size = apply_progressive_blur_kernel_size blur_intensity
      in GaussianBlur cv frame (kernel_size, kernel_size) 0)"

text \<open>\<open>apply_motion_blur\<close> (lines 49-66).\<close>

definition apply_motion_blur :: "cv2 \<Rightarrow> frame \<Rightarrow> real \<Rightarrow> string \<Rightarrow> frame" where
  "apply_motion_blur cv frame motion_intensity direction =
     (let kernel_size = apply_motion_blur_kernel_size motion_intensity
      in if direction \<in> set [''left'', ''right'', ''horizontal''] then
           let kernel = np_zeros (1, nat kernel_size);
               kernel = assign_row kernel 0 (1.0 / of_int kernel_size)
           in filter2D cv frame (- 1) kernel
         else if direction \<in> set [''up'', ''down'', ''vertical''] then
           let kernel = np_zeros (nat kernel_size, 1);
               kernel = assign_column kernel 0 (1.0 / of_int kernel_size)
           in filter2D cv frame (- 1) kernel
         else frame)"

section \<open>The transition pipelines\<close>

text \<open>
  Python's true division of two integers, which raises on a zero divisor and otherwise
  returns the double nearest to the quotient, and \<open>str.upper\<close> on ASCII text.
\<close>

definition py_truediv :: "int \<Rightarrow> int \<Rightarrow> error + real" where
  "py_truediv a b = (if b = 0 then Inl ZeroDivisionError else Inr (fl (of_int a / of_int b)))"

definition py_upper :: "string \<Rightarrow> string" where
  "py_upper s =
     map (\<lambda>c. let n = of_char c :: nat in if 97 \<le> n \<and> n \<le> 122 then char_of (n - 32) else c) s"

text \<open>
  The state a transition call works on: the frames each \<open>cv2.VideoCapture\<close> still holds
  and the frames written to the \<open>cv2.VideoWriter\<close> so far. \<open>cap.read()\<close> returns
  \<open>(True, frame)\<close> and advances, or \<open>(False, None)\<close> at the end of the stream
  (\<open>None\<close> below).
\<close>

record io =
  cap1 :: "frame list"
  cap2 :: "frame list"
  out :: "frame list"

definition cap_read :: "frame list \<Rightarrow> frame option \<times> frame list" where
  "cap_read cap = (case cap of [] \<Rightarrow> (None, []) | f # rest \<Rightarrow> (Some f, rest))"

text \<open>
  What a call ends with: the value it returns, or the exception it raises. The entry
  points have no \<open>return\<close> statement, so a call that completes returns \<open>None\<close>.
\<close>

datatype pyval = PyNone | PyInt int

datatype outcome = Returned pyval | Raised error

text \<open>
  The four entry points run the same loop (lines 78-99, 116-144, 161-199 and 217-248):
  \<open>for frame_num in range(duration_frames)\<close>, read one frame from each capture, leave the
  loop when either read fails, otherwise compute the output frame and write it. They
  differ in the computation between the reads and the write, the parameter \<open>step\<close>.
  The messages printed to the console are not modelled.
\<close>

function transition_loop ::
  "(int \<Rightarrow> frame \<Rightarrow> frame \<Rightarrow> error + frame) \<Rightarrow> int \<Rightarrow> int \<Rightarrow> io \<Rightarrow> error option \<times> io" where
  "transition_loop step frame_num duration_frames s =
     (if duration_frames \<le> frame_num then (None, s)
      else
        let (ret1, c1) = cap_read (cap1 s);
            (ret2, c2) = cap_read (cap2 s);
            s = s\<lparr>cap1 := c1, cap2 := c2\<rparr>
        in case (ret1, ret2) of
             (Some frame1, Some frame2) \<Rightarrow>
               (case step frame_num frame1 frame2 of
                  Inl e \<Rightarrow> (Some e, s)
                | Inr result_frame \<Rightarrow>
                    transition_loop step (frame_num + 1) duration_frames
                      (s\<lparr>out := out s @ [result_frame]\<rparr>))
           | _ \<Rightarrow> (None, s))"
  by pat_completeness auto
termination
  by (relation "measure (\<lambda>(step, frame_num, duration_frames, s). nat (duration_frames - frame_num))")
    auto

declare transition_loop.simps [simp del]

text \<open>
  A whole call: open both captures and an empty writer, run the loop from frame 0, and
  return \<open>None\<close> unless the loop raised.
\<close>

definition run_transition ::
  "(int \<Rightarrow> frame \<Rightarrow> frame \<Rightarrow> error + frame) \<Rightarrow> frame list \<Rightarrow> frame list \<Rightarrow> int \<Rightarrow> outcome \<times> io" where
  "run_transition step video1 video2 duration_frames =
     (case transition_loop step 0 duration_frames \<lparr>cap1 = video1, cap2 = video2, out = []\<rparr> of
        (None, s) \<Rightarrow> (Returned PyNone, s)
      | (Some e, s) \<Rightarrow> (Raised e, s))"

text \<open>\<open>create_enhanced_dissolve_transition\<close> (lines 68-104): the loop body (lines 85-97) and the call.\<close>

definition dissolve_step ::
  "EnhancedVideoTransitions \<Rightarrow> cv2 \<Rightarrow> int \<Rightarrow> int \<Rightarrow> frame \<Rightarrow> frame \<Rightarrow> error + frame" where
  "dissolve_step self cv duration_frames frame_num frame1 frame2 =
     (let frame1 = resize cv frame1 (output_width self, output_height self);
          frame2 = resize cv frame2 (output_width self, output_height self)
      in case py_truediv frame_num (duration_frames - 1) of
           Inl e \<Rightarrow> Inl e
         | Inr progress \<Rightarrow>
             (case enhanced_blend_frames frame1 frame2 progress of
                Inl e \<Rightarrow> Inl e
              | Inr result_frame \<Rightarrow>
                  let result_frame = putText cv result_frame
                        [Lit ''Enhanced Dissolve - Progress: '', Flt progress 2]
                        (10, 30) FONT_HERSHEY_SIMPLEX 0.7 (255, 255, 255) 2;
                      result_frame = putText cv result_frame
                        [Lit ''Cosine Alpha: '', Flt (cosine_interpolation progress) 3]
                        (10, 60) FONT_HERSHEY_SIMPLEX 0.7 (0, 255, 255) 2
                  in Inr result_frame))"

definition create_enhanced_dissolve_transition ::
  "EnhancedVideoTransitions \<Rightarrow> cv2 \<Rightarrow> frame list \<Rightarrow> frame list \<Rightarrow> int \<Rightarrow> outcome \<times> io" where
  "create_enhanced_dissolve_transition self cv video1 video2 duration_frames =
     run_transition (dissolve_step self cv duration_frames) video1 video2 duration_frames"

text \<open>\<open>create_progressive_blur_transition\<close> (lines 106-149): the loop body (lines 123-142) and the call.\<close>

definition progressive_blur_step ::
  "EnhancedVideoTransitions \<Rightarrow> cv2 \<Rightarrow> int \<Rightarrow> int \<Rightarrow> frame \<Rightarrow> frame \<Rightarrow> error + frame" where
  "progressive_blur_step self cv duration_frames frame_num frame1 frame2 =
     (let frame1 = resize cv frame1 (output_width self, output_height self);
          frame2 = resize cv frame2 (output_width self, output_height self)
      in case py_truediv frame_num (duration_frames - 1) of
           Inl e \<Rightarrow> Inl e
         | Inr progress \<Rightarrow>
             let blur_intensity = progressive_blur_intensity progress;
                 blurred_frame1 = apply_progressive_blur cv frame1 blur_intensity;
                 blurred_frame2 = apply_progressive_blur cv frame2 blur_intensity
             in case enhanced_blend_frames blurred_frame1 blurred_frame2 progress of
                  Inl e \<Rightarrow> Inl e
                | Inr result_frame \<Rightarrow>
                    let result_frame = putText cv result_frame
                          [Lit ''Progressive Blur - Intensity: '', Flt blur_intensity 3]
                          (10, 30) FONT_HERSHEY_SIMPLEX 0.7 (255, 255, 255) 2;
                        result_frame = putText cv result_frame
                          [Lit ''Kernel Size: '', Dec (max 3 (py_int (blur_intensity * 30) + 1))]
                          (10, 60) FONT_HERSHEY_SIMPLEX 0.7 (0, 255, 255) 2
                    in Inr result_frame)"

definition create_progressive_blur_transition ::
  "EnhancedVideoTransitions \<Rightarrow> cv2 \<Rightarrow> frame list \<Rightarrow> frame list \<Rightarrow> int \<Rightarrow> outcome \<times> io" where
  "create_progressive_blur_transition self cv video1 video2 duration_frames =
     run_transition (progressive_blur_step self cv duration_frames) video1 video2 duration_frames"

text \<open>
  \<open>create_whip_pan_transition\<close> (lines 151-204): the translation of the two blurred
  frames (lines 181-188), the loop body (lines 168-197) and the call. The offset
  \<open>int(self.output_width * progress * (1 if direction == 'right' else -1))\<close> is two float
  products, each rounded, then truncated; the motion intensity
  \<open>4.0 * progress * (1.0 - progress)\<close> is two products and a difference of floats.
\<close>

definition whip_pan_translate ::
  "EnhancedVideoTransitions \<Rightarrow> string \<Rightarrow> real \<Rightarrow> frame \<Rightarrow> frame \<Rightarrow> frame \<times> frame" where
  "whip_pan_translate self direction progress blurred_frame1 blurred_frame2 =
     (if direction \<in> set [''left'', ''right''] then
        let offset = py_int (fl (fl (of_int (output_width self) * progress)
                       * (if direction = ''right'' then 1 else - 1)));
            translated_frame1 = np_roll_axis1 blurred_frame1 offset;
            translated_frame2 = np_roll_axis1 blurred_frame2 (offset - output_width self)
        in (translated_frame1, translated_frame2)
      else
        let offset = py_int (fl (fl (of_int (output_height self) * progress)
                       * (if direction = ''down'' then 1 else - 1)));
            translated_frame1 = np_roll_axis0 blurred_frame1 offset;
            translated_frame2 = np_roll_axis0 blurred_frame2 (offset - output_height self)
        in (translated_frame1, translated_frame2))"

definition whip_pan_step ::
  "EnhancedVideoTransitions \<Rightarrow> cv2 \<Rightarrow> string \<Rightarrow> int \<Rightarrow> int \<Rightarrow> frame \<Rightarrow> frame \<Rightarrow> error + frame" where
  "whip_pan_step self cv direction duration_frames frame_num frame1 frame2 =
     (let frame1 = resize cv frame1 (output_width self, output_height self);
          frame2 = resize cv frame2 (output_width self, output_height self)
      in case py_truediv frame_num (duration_frames - 1) of
           Inl e \<Rightarrow> Inl e
         | Inr progress \<Rightarrow>
             let motion_intensity = fl (fl (4.0 * progress) * fl (1.0 - progress));
                 blurred_frame1 = apply_motion_blur cv frame1 motion_intensity direction;
                 blurred_frame2 = apply_motion_blur cv frame2 motion_intensity direction;
                 (translated_frame1, translated_frame2) =
                   whip_pan_translate self direction progress blurred_frame1 blurred_frame2
             in case enhanced_blend_frames translated_frame1 translated_frame2 progress of
                  Inl e \<Rightarrow> Inl e
                | Inr result_frame \<Rightarrow>
                    let result_frame = putText cv result_frame
                          [Lit ''Whip Pan '', Lit (py_upper direction), Lit '' - Motion: '',
                           Flt motion_intensity 3]
                          (10, 30) FONT_HERSHEY_SIMPLEX 0.7 (255, 255, 255) 2;
                        result_frame = putText cv result_frame
                          [Lit ''Kernel Size: '', Dec (motion_blur_kernel_size motion_intensity)]
                          (10, 60) FONT_HERSHEY_SIMPLEX 0.7 (0, 255, 255) 2
                    in Inr result_frame)"

definition create_whip_pan_transition ::
  "EnhancedVideoTransitions \<Rightarrow> cv2 \<Rightarrow> frame list \<Rightarrow> frame list \<Rightarrow> string \<Rightarrow> int \<Rightarrow> outcome \<times> io" where
  "create_whip_pan_transition self cv video1 video2 direction duration_frames =
     run_transition (whip_pan_step self cv direction duration_frames) video1 video2 duration_frames"

text \<open>\<open>create_comparison_demo\<close> (lines 206-253): the loop body (lines 224-246) and the call.\<close>

definition comparison_step ::
  "EnhancedVideoTransitions \<Rightarrow> cv2 \<Rightarrow> int \<Rightarrow> int \<Rightarrow> frame \<Rightarrow> frame \<Rightarrow> error + frame" where
  "comparison_step self cv duration_frames frame_num frame1 frame2 =
     (let frame1 = resize cv frame1 (output_width self, output_height self);
          frame2 = resize cv frame2 (output_width self, output_height self)
      in case py_truediv frame_num (duration_frames - 1) of
           Inl e \<Rightarrow> Inl e
         | Inr progress \<Rightarrow>
             let linear_alpha = progress
             in case addWeighted frame1 (1.0 - linear_alpha) frame2 linear_alpha 0 of
                  Inl e \<Rightarrow> Inl e
                | Inr left_result \<Rightarrow>
                    (case enhanced_blend_frames frame1 frame2 progress of
                       Inl e \<Rightarrow> Inl e
                     | Inr right_result \<Rightarrow>
                         (case np_hstack left_result right_result of
                            Inl e \<Rightarrow> Inl e
                          | Inr comparison_frame \<Rightarrow>
                              let comparison_frame = putText cv comparison_frame
                                    [Lit ''LINEAR (Old)'']
                                    (10, 30) FONT_HERSHEY_SIMPLEX 0.8 (255, 255, 255) 2;
                                  comparison_frame = putText cv comparison_frame
                                    [Lit ''COSINE ENHANCED (New)'']
                                    (output_width self + 10, 30) FONT_HERSHEY_SIMPLEX 0.8
                                    (255, 255, 255) 2;
                                  comparison_frame = putText cv comparison_frame
                                    [Lit ''Progress: '', Flt progress 2]
                                    (10, output_height self - 20) FONT_HERSHEY_SIMPLEX 0.6
                                    (0, 255, 255) 2
                              in Inr comparison_frame)))"

definition create_comparison_demo ::
  "EnhancedVideoTransitions \<Rightarrow> cv2 \<Rightarrow> frame list \<Rightarrow> frame list \<Rightarrow> int \<Rightarrow> outcome \<times> io" where
  "create_comparison_demo self cv video1 video2 duration_frames =
     run_transition (comparison_step self cv duration_frames) video1 video2 duration_frames"

text \<open>
  What the theorems about whole runs ask of the library: \<open>cv2.resize\<close> to the configured
  size returns a frame of \<open>output_height\<close> rows of \<open>output_width\<close> pixels, and the two
  filters return a frame of the size of their input.
\<close>

definition cv2_keeps_shape :: "EnhancedVideoTransitions \<Rightarrow> cv2 \<Rightarrow> bool" where
  "cv2_keeps_shape self cv \<longleftrightarrow>
     (\<forall>f. map length (resize cv f (output_width self, output_height self))
          = replicate (nat (output_height self)) (nat (output_width self)))
     \<and> (\<forall>f k s. map length (GaussianBlur cv f k s) = map length f)
     \<and> (\<forall>f d k. map length (filter2D cv f d k) = map length f)"

text \<open>
  The numbers of frames a run of \<open>total_steps\<close> steps emits and pulls from each source:
  it emits one frame per step until the step count or the shorter source is exhausted,
  and the step that finds a source exhausted has still read both.
\<close>

definition emitted_count :: "int \<Rightarrow> frame list \<Rightarrow> frame list \<Rightarrow> nat" where
  "emitted_count n a b = min (nat n) (min (length a) (length b))"

definition pulled_count :: "int \<Rightarrow> frame list \<Rightarrow> frame list \<Rightarrow> nat" where
  "pulled_count n a b = min (nat n) (Suc (min (length a) (length b)))"

text \<open>The four entry points, as functions of the two sources and the step count.\<close>

definition entry_points ::
  "EnhancedVideoTransitions \<Rightarrow> cv2 \<Rightarrow> string
    \<Rightarrow> (frame list \<Rightarrow> frame list \<Rightarrow> int \<Rightarrow> outcome \<times> io) list" where
  "entry_points self cv direction =
     [create_enhanced_dissolve_transition self cv,
      create_progressive_blur_transition self cv,
      (\<lambda>video1 video2. create_whip_pan_transition self cv video1 video2 direction),
      create_comparison_demo self cv]"

text \<open>
  A small instance of the library for running the engine on concrete frames: resizing
  crops or pads with black to the requested size, the filters and the text overlay leave
  the frame as it is. \<open>gray n\<close> is the pixel with all three samples \<open>n\<close>.
\<close>

definition crop_or_pad :: "frame \<Rightarrow> int \<times> int \<Rightarrow> frame" where
  "crop_or_pad f dsize =
     (let w = nat (fst dsize); h = nat (snd dsize)
      in map (\<lambda>row. take w (row @ replicate w (0, 0, 0))) (take h (f @ replicate h [])))"

definition plain_cv2 :: cv2 where
  "plain_cv2 = \<lparr>resize = crop_or_pad,
                 GaussianBlur = (\<lambda>f k s. f),
                 filter2D = (\<lambda>f d k. f),
                 putText = (\<lambda>f t org font scale color thickness. f)\<rparr>"

definition gray :: "nat \<Rightarrow> pixel" where
  "gray n = (of_nat n, of_nat n, of_nat n)"

definition demo_engine :: EnhancedVideoTransitions where
  "demo_engine = \<lparr>output_width = 2, output_height = 1, fps = 30\<rparr>"

text \<open>A frame of one column and \<open>n\<close> rows, of the gray levels \<open>base\<close>, \<open>base + 1\<close>, ...\<close>

definition ramp :: "nat \<Rightarrow> nat \<Rightarrow> frame" where
  "ramp n base = map (\<lambda>i. [gray (base + i)]) [0..<n]"

section \<open>Properties of the rounding\<close>

lemma cv_round_of_int: "cv_round (of_int n) = n"
  by (simp add: cv_round_def)

lemma cv_round_floor_le: "\<lfloor>x\<rfloor> \<le> cv_round x"
  by (simp add: cv_round_def Let_def)

lemma cv_round_le_floor_Suc: "cv_round x \<le> \<lfloor>x\<rfloor> + 1"
  by (simp add: cv_round_def Let_def)

lemma cv_round_ge: "of_int n \<le> x \<Longrightarrow> n \<le> cv_round x"
proof -
  assume "of_int n \<le> x"
  then have "n \<le> \<lfloor>x\<rfloor>" by (simp add: le_floor_iff)
  then show ?thesis using cv_round_floor_le [of x] by linarith
qed

lemma cv_round_le: "x \<le> of_int n \<Longrightarrow> cv_round x \<le> n"
proof (cases "x = of_int n")
  case True
  then show ?thesis by (simp add: cv_round_of_int)
next
  case False
  assume "x \<le> of_int n"
  with False have "x < of_int n" by simp
  then have "\<lfloor>x\<rfloor> < n" by (simp add: floor_less_iff)
  then show ?thesis using cv_round_le_floor_Suc [of x] by linarith
qed

lemma cv_round_mono: "x \<le> y \<Longrightarrow> cv_round x \<le> cv_round y"
proof (cases "\<lfloor>x\<rfloor> = \<lfloor>y\<rfloor>")
  case True
  assume "x \<le> y"
  with True show ?thesis by (auto simp: cv_round_def Let_def)
next
  case False
  assume "x \<le> y"
  then have "\<lfloor>x\<rfloor> \<le> \<lfloor>y\<rfloor>" by (rule floor_mono)
  with False have "\<lfloor>x\<rfloor> + 1 \<le> \<lfloor>y\<rfloor>" by simp
  then show ?thesis
    using cv_round_le_floor_Suc [of x] cv_round_floor_le [of y] by linarith
qed

lemma cv_round_minus: "cv_round (- x) = - cv_round x"
proof (cases "x = of_int \<lfloor>x\<rfloor>")
  case True
  then have "cv_round (- of_int \<lfloor>x\<rfloor>) = - cv_round (of_int \<lfloor>x\<rfloor>)"
    using cv_round_of_int [of "- \<lfloor>x\<rfloor>"] cv_round_of_int [of "\<lfloor>x\<rfloor>"] by simp
  with True show ?thesis by simp
next
  case False
  then have lt: "of_int \<lfloor>x\<rfloor> < x" using of_int_floor_le [of x] by linarith
  have "x \<le> of_int \<lfloor>x\<rfloor> + 1" by linarith
  then have a: "of_int (- \<lfloor>x\<rfloor> - 1) \<le> - x" by simp linarith
  have b: "- x < of_int (- \<lfloor>x\<rfloor> - 1) + 1"
    using lt by simp
  from a b have "\<lfloor>- x\<rfloor> = - \<lfloor>x\<rfloor> - 1"
    by (rule floor_unique)
  then show ?thesis
    using lt by (auto simp: cv_round_def Let_def)
qed

lemma two_powr_int_diff: "2 powr (of_int (52 - int n)) = (2::real) ^ 52 / 2 ^ n"
  by (simp add: powr_diff powr_realpow)

lemma fl_small:
  assumes "2 ^ 52 \<le> \<bar>x\<bar> * 2 ^ n" "\<bar>x\<bar> * 2 ^ n < 2 ^ 53"
  shows "fl x = of_int (cv_round (x * 2 ^ n)) / 2 ^ n"
proof -
  from assms(1) have nz: "x \<noteq> 0" by auto
  then have pos: "0 < \<bar>x\<bar>" by simp
  have lo: "2 powr (of_int (52 - int n)) \<le> \<bar>x\<bar>"
    unfolding two_powr_int_diff using assms(1) by (simp add: field_simps)
  have "2 powr (of_int (52 - int n) + 1) = 2 powr (of_int (52 - int n)) * (2::real) powr 1"
    by (rule powr_add)
  then have "2 powr (of_int (52 - int n) + 1) = 2 powr (of_int (52 - int n)) * (2::real)"
    by (simp only: powr_one zero_le_numeral)
  then have h53: "2 powr (of_int (52 - int n) + 1) = (2::real) ^ 53 / 2 ^ n"
    unfolding two_powr_int_diff by simp
  have "\<bar>x\<bar> < (2::real) ^ 53 / 2 ^ n"
    using assms(2) by (simp add: field_simps)
  then have hi: "\<bar>x\<bar> < 2 powr (of_int (52 - int n) + 1)"
    by (simp only: h53)
  from lo hi pos have e: "\<lfloor>log 2 \<bar>x\<bar>\<rfloor> = 52 - int n"
    by (subst floor_log_eq_powr_iff) simp_all
  have "of_int (52 - int n) - 52 = - real n" by simp
  then have u: "2 powr (of_int (52 - int n) - 52) = 1 / (2::real) ^ n"
    by (simp only: powr_minus powr_realpow zero_less_numeral) (simp add: field_simps)
  show ?thesis unfolding fl_def e Let_def u using nz by simp
qed

lemma fl_0: "fl 0 = 0"
  by (simp add: fl_def)

lemma fl_half: "fl (1/2) = 1/2"
  by (subst fl_small [where n = 53]) (simp_all add: cv_round_def)

lemma fl_1: "fl 1 = 1"
  by (subst fl_small [where n = 52]) (simp_all add: cv_round_def)

lemma fl_2: "fl 2 = 2"
  by (subst fl_small [where n = 51]) (simp_all add: cv_round_def)

lemma fl_3_2: "fl (3 / 2) = 3 / 2"
  by (subst fl_small [where n = 52]) (simp_all add: cv_round_def)

lemma fl_minus: "fl (- x) = - fl x"
  by (simp add: fl_def Let_def cv_round_minus)

lemma fl_pos_bounds:
  assumes "0 < x"
  shows "2 powr (of_int \<lfloor>log 2 x\<rfloor>) \<le> fl x"
    and "fl x \<le> 2 powr (of_int \<lfloor>log 2 x\<rfloor> + 1)"
proof -
  define k where "k = \<lfloor>log 2 x\<rfloor>"
  define u :: real where "u = 2 powr (of_int k - 52)"
  have u: "0 < u" by (simp add: u_def)
  from assms have b: "2 powr (of_int k) \<le> x" "x < 2 powr (of_int k + 1)"
    using floor_log_eq_powr_iff [of x 2 k] by (simp_all add: k_def)
  have ku: "2 powr (of_int k) = 2 ^ 52 * u"
    by (simp add: u_def powr_diff)
  have "2 powr (of_int k + 1) = 2 powr (of_int k) * (2::real) powr 1"
    by (rule powr_add)
  then have ku1: "2 powr (of_int k + 1) = 2 ^ 53 * u"
    by (simp add: ku)
  have f: "fl x = of_int (cv_round (x / u)) * u"
    using assms by (simp add: fl_def Let_def k_def u_def)
  from b(1) u have "of_int (2 ^ 52) \<le> x / u"
    by (simp add: ku pos_le_divide_eq)
  then have "2 ^ 52 \<le> cv_round (x / u)" by (rule cv_round_ge)
  then have "(of_int (2 ^ 52) :: real) \<le> of_int (cv_round (x / u))"
    by (simp only: of_int_le_iff)
  then have "(2::real) ^ 52 \<le> of_int (cv_round (x / u))" by simp
  with u have "2 ^ 52 * u \<le> of_int (cv_round (x / u)) * u"
    by (simp add: mult_right_mono)
  then show "2 powr (of_int \<lfloor>log 2 x\<rfloor>) \<le> fl x"
    by (simp add: f ku k_def [symmetric])
  from b(2) u have "x / u \<le> of_int (2 ^ 53)"
    by (simp add: ku1 pos_divide_le_eq)
  then have "cv_round (x / u) \<le> 2 ^ 53" by (rule cv_round_le)
  then have "(of_int (cv_round (x / u)) :: real) \<le> of_int (2 ^ 53)"
    by (simp only: of_int_le_iff)
  then have "of_int (cv_round (x / u)) \<le> (2::real) ^ 53" by simp
  with u have "of_int (cv_round (x / u)) * u \<le> 2 ^ 53 * u"
    by (simp add: mult_right_mono)
  then show "fl x \<le> 2 powr (of_int \<lfloor>log 2 x\<rfloor> + 1)"
    by (simp add: f ku1 k_def [symmetric])
qed

lemma fl_nonneg: "0 \<le> x \<Longrightarrow> 0 \<le> fl x"
proof (cases "x = 0")
  case True
  then show ?thesis by (simp add: fl_0)
next
  case False
  assume "0 \<le> x"
  with False have "0 < x" by simp
  from fl_pos_bounds(1) [OF this] show ?thesis
    using powr_ge_zero [of 2 "of_int \<lfloor>log 2 x\<rfloor>"] by linarith
qed

lemma fl_mono_pos:
  assumes "0 < x" "x \<le> y"
  shows "fl x \<le> fl y"
proof -
  from assms have y: "0 < y" by simp
  from assms have "log 2 x \<le> log 2 y" by simp
  then have km: "\<lfloor>log 2 x\<rfloor> \<le> \<lfloor>log 2 y\<rfloor>" by (rule floor_mono)
  show ?thesis
  proof (cases "\<lfloor>log 2 x\<rfloor> = \<lfloor>log 2 y\<rfloor>")
    case True
    define u :: real where "u = 2 powr (of_int \<lfloor>log 2 y\<rfloor> - 52)"
    have u: "0 < u" by (simp add: u_def)
    with assms(2) have "x / u \<le> y / u" by (simp add: divide_right_mono)
    then have "cv_round (x / u) \<le> cv_round (y / u)" by (rule cv_round_mono)
    then have "(of_int (cv_round (x / u)) :: real) \<le> of_int (cv_round (y / u))" by simp
    with u have "of_int (cv_round (x / u)) * u \<le> of_int (cv_round (y / u)) * u"
      by (simp add: mult_right_mono)
    then show ?thesis
      using assms(1) y True by (simp add: fl_def Let_def u_def)
  next
    case False
    with km have "\<lfloor>log 2 x\<rfloor> + 1 \<le> \<lfloor>log 2 y\<rfloor>" by simp
    then have "real_of_int \<lfloor>log 2 x\<rfloor> + 1 \<le> real_of_int \<lfloor>log 2 y\<rfloor>" by linarith
    then have "2 powr (of_int \<lfloor>log 2 x\<rfloor> + 1) \<le> (2::real) powr (of_int \<lfloor>log 2 y\<rfloor>)"
      by (simp add: powr_mono)
    with fl_pos_bounds(2) [OF assms(1)] fl_pos_bounds(1) [OF y] show ?thesis
      by linarith
  qed
qed

lemma fl_mono:
  assumes "x \<le> y"
  shows "fl x \<le> fl y"
proof -
  consider "0 < x" | "x \<le> 0" "0 \<le> y" | "y < 0" by linarith
  then show ?thesis
  proof cases
    case 1
    then show ?thesis using assms by (rule fl_mono_pos)
  next
    case 2
    then have "0 \<le> fl (- x)" "0 \<le> fl y" by (simp_all add: fl_nonneg)
    then show ?thesis by (simp add: fl_minus)
  next
    case 3
    with assms have "0 < - y" "- y \<le> - x" by simp_all
    then have "fl (- y) \<le> fl (- x)" by (rule fl_mono_pos)
    then show ?thesis by (simp add: fl_minus)
  qed
qed


lemma cv_round_error: "\<bar>of_int (cv_round y) - y\<bar> \<le> 1/2"
proof -
  have "of_int \<lfloor>y\<rfloor> \<le> y" "y < of_int \<lfloor>y\<rfloor> + 1" by linarith+
  then show ?thesis
    by (auto simp: cv_round_def Let_def)
qed

lemma fl_error: "\<bar>fl x - x\<bar> \<le> \<bar>x\<bar> / 2 ^ 53"
proof (cases "x = 0")
  case True
  then show ?thesis by (simp add: fl_0)
next
  case False
  define k where "k = \<lfloor>log 2 \<bar>x\<bar>\<rfloor>"
  define u :: real where "u = 2 powr (of_int k - 52)"
  have u: "0 < u" by (simp add: u_def)
  from False have "0 < \<bar>x\<bar>" by simp
  then have "2 powr (of_int k) \<le> \<bar>x\<bar>"
    using floor_log_eq_powr_iff [of "\<bar>x\<bar>" 2 k] by (simp add: k_def)
  moreover have "2 powr (of_int k) = 2 ^ 52 * u"
    by (simp add: u_def powr_diff)
  ultimately have ux: "u / 2 \<le> \<bar>x\<bar> / 2 ^ 53" by simp
  have f: "fl x = of_int (cv_round (x / u)) * u"
    using False by (simp add: fl_def Let_def k_def u_def)
  have "fl x - x = (of_int (cv_round (x / u)) - x / u) * u"
    using u by (simp add: f field_simps)
  then have "\<bar>fl x - x\<bar> = \<bar>of_int (cv_round (x / u)) - x / u\<bar> * u"
    using u by (simp add: abs_mult)
  also have "\<dots> \<le> 1/2 * u"
    using cv_round_error [of "x / u"] u by (intro mult_right_mono) simp_all
  finally have "\<bar>fl x - x\<bar> \<le> u / 2" by simp
  with ux show ?thesis by linarith
qed

text \<open>
  \<open>math.pi\<close> lies below \<open>pi\<close>, by between \<open>17 / 2^57\<close> and \<open>1 / 2^52\<close>: Machin's formula
  with the alternating series of the arc tangent, cut after an even and after an odd
  number of terms.
\<close>

lemma arctan_partial_sums:
  assumes "0 < x" "x \<le> 1"
  shows "(\<Sum>k<2 * n. (- 1) ^ k * (1 / real (k * 2 + 1) * x ^ (k * 2 + 1))) \<le> arctan x"
    and "arctan x \<le> (\<Sum>k<2 * n + 1. (- 1) ^ k * (1 / real (k * 2 + 1) * x ^ (k * 2 + 1)))"
proof -
  from assms have a: "\<bar>x\<bar> \<le> 1" by simp
  let ?a = "\<lambda>k. 1 / real (k * 2 + 1) * x ^ (k * 2 + 1)"
  from assms(1) have "0 < ?a 0" by simp
  with summable_Leibniz(2) [OF zeroseq_arctan_series [OF a] monoseq_arctan_series [OF a]]
  have "(\<Sum>k. (- 1) ^ k * ?a k) \<in> {\<Sum>k<2 * n. (- 1) ^ k * ?a k .. \<Sum>k<2 * n + 1. (- 1) ^ k * ?a k}"
    by blast
  then show "(\<Sum>k<2 * n. (- 1) ^ k * ?a k) \<le> arctan x"
    and "arctan x \<le> (\<Sum>k<2 * n + 1. (- 1) ^ k * ?a k)"
    by (simp_all add: arctan_series [OF a])
qed

lemma pi_machin_16_4: "pi = 16 * arctan (1 / 5) - 4 * arctan (1 / 239)"
  using machin by simp

lemma pi_above_math_pi: "math_pi + 17 / 2 ^ 57 \<le> pi"
  unfolding pi_machin_16_4 math_pi_def
  using arctan_partial_sums(1) [of "1/5" 6] arctan_partial_sums(2) [of "1/239" 2]
  by (simp add: eval_nat_numeral)

lemma pi_below_math_pi: "pi \<le> math_pi + 1 / 2 ^ 52"
  unfolding pi_machin_16_4 math_pi_def
  using arctan_partial_sums(2) [of "1/5" 6] arctan_partial_sums(1) [of "1/239" 2]
  by (simp add: eval_nat_numeral)

section \<open>Properties of the scalar functions\<close>

lemma py_int_floor: "0 \<le> x \<Longrightarrow> py_int x = \<lfloor>x\<rfloor>"
  by (simp add: py_int_def)

lemma py_int_mono: "x \<le> y \<Longrightarrow> py_int x \<le> py_int y"
proof (cases "0 \<le> x")
  case True
  assume "x \<le> y"
  with True show ?thesis by (simp add: py_int_def floor_mono)
next
  case False
  assume le: "x \<le> y"
  show ?thesis
  proof (cases "0 \<le> y")
    case True
    from False have "\<lceil>x\<rceil> \<le> 0" by (simp add: ceiling_le_iff)
    moreover from True have "0 \<le> \<lfloor>y\<rfloor>" by simp
    ultimately have "\<lceil>x\<rceil> \<le> \<lfloor>y\<rfloor>" by (rule order_trans)
    with False True show ?thesis by (simp add: py_int_def)
  next
    case y: False
    with False le show ?thesis by (simp add: py_int_def ceiling_mono)
  qed
qed

lemma round_up_odd_mono:
  fixes a b :: int
  assumes "a \<le> b"
  shows "(if a mod 2 = 0 then a + 1 else a) \<le> (if b mod 2 = 0 then b + 1 else b)"
proof (cases "a = b")
  case True
  then show ?thesis by simp
next
  case False
  with assms have "a + 1 \<le> b" by simp
  then show ?thesis by simp
qed

lemma progressive_kernel_mono:
  "x \<le> y \<Longrightarrow> apply_progressive_blur_kernel_size x \<le> apply_progressive_blur_kernel_size y"
proof -
  assume "x \<le> y"
  then have "py_int (x * 30) \<le> py_int (y * 30)"
    by (intro py_int_mono) simp
  then have "max 3 (py_int (x * 30) + 1) \<le> max 3 (py_int (y * 30) + 1)"
    by simp
  then show ?thesis
    unfolding apply_progressive_blur_kernel_size_def Let_def by (rule round_up_odd_mono)
qed

lemma motion_kernel_eq_progressive:
  "apply_motion_blur_kernel_size x = apply_progressive_blur_kernel_size x"
  by (simp add: apply_motion_blur_kernel_size_def apply_progressive_blur_kernel_size_def
      motion_blur_kernel_size_def)

lemma round_up_odd: "odd (if k mod 2 = 0 then k + 1 else k :: int)"
  by presburger

lemma progressive_kernel_odd: "odd (apply_progressive_blur_kernel_size x)"
  unfolding apply_progressive_blur_kernel_size_def Let_def by (rule round_up_odd)

lemma round_up_ge_3: "3 \<le> k \<Longrightarrow> 3 \<le> (if k mod 2 = 0 then k + 1 else k :: int)"
  by presburger

lemma progressive_kernel_ge_3: "3 \<le> apply_progressive_blur_kernel_size x"
  unfolding apply_progressive_blur_kernel_size_def Let_def
  by (rule round_up_ge_3) (rule max.cobounded1)

lemma progressive_kernel_spec:
  assumes "0 \<le> x"
  shows "apply_progressive_blur_kernel_size x = kernel_size_from_intensity x"
proof -
  from assms have "py_int (x * 30) = \<lfloor>x * 30\<rfloor>"
    by (intro py_int_floor) simp
  then show ?thesis
    by (simp add: apply_progressive_blur_kernel_size_def kernel_size_from_intensity_def
        even_iff_mod_2_eq_zero)
qed

lemma progressive_kernel_le_31:
  assumes "0 \<le> x" "x \<le> 1"
  shows "apply_progressive_blur_kernel_size x \<le> 31"
proof -
  from assms have f: "py_int (x * 30) = \<lfloor>x * 30\<rfloor>"
    by (intro py_int_floor) simp
  from assms have "\<lfloor>x * 30\<rfloor> \<le> 30"
    by (simp add: floor_le_iff)
  with f have "max 3 (py_int (x * 30) + 1) \<le> 31"
    by simp
  moreover have "k \<le> 31 \<Longrightarrow> (if k mod 2 = 0 then k + 1 else k) \<le> 31" for k :: int
    by presburger
  ultimately show ?thesis
    unfolding apply_progressive_blur_kernel_size_def Let_def by blast
qed

text \<open>
  Claim C3. For every intensity in [0,1] the kernel size that both blur variants use
  equals the specification's \<open>kernel_size_from_intensity\<close>, that is
  \<open>max(3, floor(intensity * 30) + 1)\<close> rounded up to the next odd value if even; it is
  odd, at least 3, and a larger intensity never yields a smaller kernel.
\<close>

theorem kernel_size_from_intensity_contract:
  assumes "0 \<le> intensity" "intensity \<le> intensity'" "intensity' \<le> 1"
  shows "apply_progressive_blur_kernel_size intensity = kernel_size_from_intensity intensity
    \<and> apply_motion_blur_kernel_size intensity = kernel_size_from_intensity intensity
    \<and> odd (kernel_size_from_intensity intensity)
    \<and> 3 \<le> kernel_size_from_intensity intensity
    \<and> kernel_size_from_intensity intensity \<le> kernel_size_from_intensity intensity'"
proof -
  from assms have nn: "0 \<le> intensity'" by simp
  have e: "apply_progressive_blur_kernel_size intensity = kernel_size_from_intensity intensity"
    using assms(1) by (rule progressive_kernel_spec)
  have e': "apply_progressive_blur_kernel_size intensity' = kernel_size_from_intensity intensity'"
    using nn by (rule progressive_kernel_spec)
  have m: "apply_motion_blur_kernel_size intensity = kernel_size_from_intensity intensity"
    using e by (simp add: motion_kernel_eq_progressive)
  have o: "odd (kernel_size_from_intensity intensity)"
    using progressive_kernel_odd [of intensity] e by simp
  have g: "3 \<le> kernel_size_from_intensity intensity"
    using progressive_kernel_ge_3 [of intensity] e by simp
  have l: "kernel_size_from_intensity intensity \<le> kernel_size_from_intensity intensity'"
    using progressive_kernel_mono [OF assms(2)] e e' by simp
  from e m o g l show ?thesis by blast
qed

theorem kernel_size_from_intensity_contract_witness:
  "apply_progressive_blur_kernel_size (1/10) = 5
    \<and> apply_motion_blur_kernel_size (1/10) = 5
    \<and> motion_blur_kernel_size (1/10) = 4
    \<and> kernel_size_from_intensity (1/10) = 5
    \<and> kernel_size_from_intensity (1/10) \<le> kernel_size_from_intensity (1/2)"
proof -
  have k: "kernel_size_from_intensity (1/10) = 5"
    by (simp add: kernel_size_from_intensity_def)
  have r: "motion_blur_kernel_size (1/10) = 4"
    by (simp add: motion_blur_kernel_size_def py_int_def)
  show ?thesis
    using kernel_size_from_intensity_contract [of "1/10" "1/2"] k r by simp
qed

text \<open>
  Claim C10. For every intensity in [0,1], the kernel size that \<open>apply_progressive_blur\<close>
  and \<open>apply_motion_blur\<close> use after the evenness adjustment lies between 3 and 31
  inclusive.
\<close>

theorem effective_kernel_size_bounded:
  assumes "0 \<le> intensity" "intensity \<le> 1"
  shows "3 \<le> apply_progressive_blur_kernel_size intensity
    \<and> apply_progressive_blur_kernel_size intensity \<le> 31
    \<and> 3 \<le> apply_motion_blur_kernel_size intensity
    \<and> apply_motion_blur_kernel_size intensity \<le> 31"
  using progressive_kernel_ge_3 [of intensity] progressive_kernel_le_31 [OF assms]
  by (simp add: motion_kernel_eq_progressive)

theorem effective_kernel_size_bounded_witness:
  "apply_progressive_blur_kernel_size 1 = 31 \<and> apply_motion_blur_kernel_size 1 = 31
    \<and> apply_progressive_blur_kernel_size 0 = 3 \<and> apply_motion_blur_kernel_size 0 = 3
    \<and> 3 \<le> apply_progressive_blur_kernel_size (1/2)
    \<and> apply_motion_blur_kernel_size (1/2) \<le> 31"
proof -
  have a: "apply_progressive_blur_kernel_size 1 = 31" "apply_progressive_blur_kernel_size 0 = 3"
    by (simp_all add: apply_progressive_blur_kernel_size_def py_int_def)
  have b: "apply_motion_blur_kernel_size 1 = 31" "apply_motion_blur_kernel_size 0 = 3"
    using a by (simp_all add: motion_kernel_eq_progressive)
  show ?thesis
    using effective_kernel_size_bounded [of "1/2"] a b by simp
qed

text \<open>
  The easing at the ends and in the middle of [0,1]: the doubles that the intermediate
  results round to, from bounds on the cosine near \<open>pi\<close> and \<open>pi / 2\<close>.
\<close>

lemma fl_math_pi: "fl math_pi = math_pi"
  by (subst fl_small [where n = 51]) (simp_all add: math_pi_def cv_round_def)


lemma fl_below_1: "fl (1 - 1 / 2 ^ 60) = 1"
  by (subst fl_small [where n = 53]) (simp_all add: cv_round_def)






lemma cosine_interpolation_0: "cosine_interpolation 0 = 0"
  by (simp add: cosine_interpolation_def math_cos_def fl_0 fl_1)

lemma cos_math_pi_bounds: "- 1 \<le> cos math_pi" "cos math_pi \<le> - (1 - 1 / 2 ^ 60)"
proof -
  define d where "d = pi - math_pi"
  have d: "0 \<le> d" "d \<le> 1 / 2 ^ 52"
    using pi_above_math_pi pi_below_math_pi by (simp_all add: d_def)
  have "cos math_pi = cos (pi - d)" by (simp add: d_def)
  then have c: "cos math_pi = - cos d" by simp
  show "- 1 \<le> cos math_pi" by simp
  have "\<bar>sin (d / 2)\<bar> \<le> \<bar>d / 2\<bar>" by (rule abs_sin_x_le_abs_x)
  with d have "\<bar>sin (d / 2)\<bar> \<le> 1 / 2 ^ 53" by simp
  then have "\<bar>sin (d / 2)\<bar> ^ 2 \<le> (1 / 2 ^ 53) ^ 2"
    by (intro power_mono) simp_all
  moreover have "(1 / 2 ^ 53 :: real) ^ 2 = 1 / 2 ^ 106"
    by (simp add: power_divide)
  ultimately have s: "(sin (d / 2)) ^ 2 \<le> 1 / 2 ^ 106"
    by (simp only: power2_abs)
  have "cos d = cos (2 * (d / 2))" by simp
  also have "\<dots> = 1 - 2 * sin (d / 2) ^ 2" by (rule cos_double_sin)
  finally have cd: "cos d = 1 - 2 * sin (d / 2) ^ 2" .
  have "(1 :: real) / 2 ^ 106 \<le> 1 / 2 ^ 61" by simp
  with s have "2 * sin (d / 2) ^ 2 \<le> 1 / 2 ^ 60" by simp
  with cd have "1 - 1 / 2 ^ 60 \<le> cos d" by linarith
  with c show "cos math_pi \<le> - (1 - 1 / 2 ^ 60)" by linarith
qed

lemma math_cos_math_pi: "math_cos math_pi = - 1"
proof -
  have "fl (- 1) \<le> fl (cos math_pi)"
    using cos_math_pi_bounds(1) by (rule fl_mono)
  then have lo: "- 1 \<le> fl (cos math_pi)"
    by (simp only: fl_minus fl_1)
  have "fl (cos math_pi) \<le> fl (- (1 - 1 / 2 ^ 60))"
    using cos_math_pi_bounds(2) by (rule fl_mono)
  then have hi: "fl (cos math_pi) \<le> - 1"
    by (simp only: fl_minus fl_below_1)
  from lo hi show ?thesis
    unfolding math_cos_def by (rule antisym [rotated])
qed

lemma cosine_interpolation_1: "cosine_interpolation 1 = 1"
  by (simp add: cosine_interpolation_def fl_math_pi math_cos_math_pi fl_2 fl_1)









lemma progressive_blur_intensity_le_1: "progressive_blur_intensity p \<le> 1"
proof -
  have "1 - 4 * p * (1 - p) = (2 * p - 1)\<^sup>2"
    by (simp add: power2_eq_square algebra_simps)
  then have "0 \<le> 1 - 4 * p * (1 - p)" by simp
  then show ?thesis by (simp add: progressive_blur_intensity_def)
qed

text \<open>
  Claim C5. The intensity function is \<open>4 * progress * (1 - progress)\<close>; it is 0 at
  progress 0 and at progress 1, and its maximum over [0,1] is 1, attained at 0.5.
\<close>

theorem pulse_intensity_contract:
  "progressive_blur_intensity progress = 4 * progress * (1 - progress)
    \<and> progressive_blur_intensity 0 = 0
    \<and> progressive_blur_intensity 1 = 0
    \<and> progressive_blur_intensity (1/2) = 1
    \<and> (\<forall>p. 0 \<le> p \<and> p \<le> 1 \<longrightarrow> progressive_blur_intensity p \<le> 1)"
  using progressive_blur_intensity_le_1
  by (simp add: progressive_blur_intensity_def)

theorem pulse_intensity_contract_witness:
  "progressive_blur_intensity (1/4) = 3/4 \<and> progressive_blur_intensity (1/4) \<le> 1"
proof -
  have "\<forall>p. 0 \<le> p \<and> p \<le> 1 \<longrightarrow> progressive_blur_intensity p \<le> 1"
    using pulse_intensity_contract [of 0] by blast
  then have "progressive_blur_intensity (1/4) \<le> 1" by simp
  moreover have "progressive_blur_intensity (1/4) = 3/4"
    by (simp add: progressive_blur_intensity_def)
  ultimately show ?thesis by blast
qed

section \<open>Properties of blending\<close>

lemma map2_left: "length xs = length ys \<Longrightarrow> (\<And>x y. f x y = x) \<Longrightarrow> map2 f xs ys = xs"
  by (induction xs ys rule: list_induct2) simp_all

lemma map2_right: "length xs = length ys \<Longrightarrow> (\<And>x y. f x y = y) \<Longrightarrow> map2 f xs ys = ys"
  by (induction xs ys rule: list_induct2) simp_all

lemma map2_map2_left:
  "map length a = map length b \<Longrightarrow> (\<And>x y. f x y = x) \<Longrightarrow> map2 (map2 f) a b = a"
proof (induction a arbitrary: b)
  case Nil
  then show ?case by simp
next
  case (Cons r a)
  then obtain r' b' where b: "b = r' # b'" by (cases b) auto
  with Cons.prems have "length r = length r'" "map length a = map length b'" by simp_all
  with Cons.IH [of b'] Cons.prems(2) b show ?case by (simp add: map2_left)
qed

lemma map2_map2_right:
  "map length a = map length b \<Longrightarrow> (\<And>x y. f x y = y) \<Longrightarrow> map2 (map2 f) a b = b"
proof (induction a arbitrary: b)
  case Nil
  then show ?case by simp
next
  case (Cons r a)
  then obtain r' b' where b: "b = r' # b'" by (cases b) auto
  with Cons.prems have "length r = length r'" "map length a = map length b'" by simp_all
  with Cons.IH [of b'] Cons.prems(2) b show ?case by (simp add: map2_right)
qed

lemma map2_map2_shape:
  "map length a = map length b \<Longrightarrow> map length (map2 (map2 f) a b) = map length a"
proof (induction a arbitrary: b)
  case Nil
  then show ?case by simp
next
  case (Cons r a)
  then obtain r' b' where b: "b = r' # b'" by (cases b) auto
  with Cons.prems have "length r = length r'" "map length a = map length b'" by simp_all
  with Cons.IH [of b'] b show ?case by simp
qed

lemma saturate_u8_uint: "saturate_u8 (uint a) = a"
proof -
  have "uint a < 2 ^ LENGTH(8)" by (rule uint_lt2p)
  then have "max 0 (min 255 (uint a)) = uint a" by simp
  then show ?thesis by (simp add: saturate_u8_def)
qed

lemma weighted_sample_same: "weighted_sample a (1 - w) a w 0 = a"
proof -
  have "of_int (uint a) * (1 - w) + of_int (uint a) * w + 0 = (of_int (uint a) :: real)"
    by (simp add: algebra_simps)
  then show ?thesis
    by (simp only: weighted_sample_def cv_round_of_int saturate_u8_uint)
qed

lemma weighted_sample_first: "weighted_sample a 1 b 0 0 = a"
  unfolding weighted_sample_def
  by (simp only: mult.right_neutral mult_zero_right add.right_neutral cv_round_of_int
      saturate_u8_uint)

lemma weighted_sample_second: "weighted_sample a 0 b 1 0 = b"
  unfolding weighted_sample_def
  by (simp only: mult.right_neutral mult_zero_right add.right_neutral add.left_neutral
      cv_round_of_int saturate_u8_uint)

lemma weighted_pixel_same: "weighted_pixel (1 - w) w 0 p p = p"
  by (cases p) (simp add: weighted_sample_same)

lemma weighted_pixel_first: "weighted_pixel 1 0 0 p q = p"
  by (cases p; cases q) (simp add: weighted_sample_first)

lemma weighted_pixel_second: "weighted_pixel 0 1 0 p q = q"
  by (cases p; cases q) (simp add: weighted_sample_second)

lemma addWeighted_same: "addWeighted a (1 - w) a w 0 = Inr a"
proof -
  have "map2 (map2 (weighted_pixel (1 - w) w 0)) a a = a"
    by (simp add: zip_same_conv_map weighted_pixel_same map_idI)
  then show ?thesis by (simp add: addWeighted_def)
qed

lemma addWeighted_first:
  "map length a = map length b \<Longrightarrow> addWeighted a 1 b 0 0 = Inr a"
  by (simp add: addWeighted_def map2_map2_left weighted_pixel_first)

lemma addWeighted_second:
  "map length a = map length b \<Longrightarrow> addWeighted a 0 b 1 0 = Inr b"
  by (simp add: addWeighted_def map2_map2_right weighted_pixel_second)

lemma addWeighted_mismatch:
  "map length a \<noteq> map length b \<Longrightarrow> addWeighted a alpha b beta gamma = Inl CvError"
  by (simp add: addWeighted_def)

text \<open>
  Claim C8. Blending a frame with itself returns that frame unchanged, for every
  progress; and for two frames of equal dimensions, blending at progress 0 returns the
  first frame and blending at progress 1 returns the second.
\<close>

theorem blend_identities:
  "enhanced_blend_frames A A p = Inr A
    \<and> (map length A = map length B \<longrightarrow>
          enhanced_blend_frames A B 0 = Inr A \<and> enhanced_blend_frames A B 1 = Inr B)"
proof -
  have s: "enhanced_blend_frames A A p = Inr A"
    by (simp add: enhanced_blend_frames_def addWeighted_same)
  have z: "cosine_interpolation 0 = 0" "cosine_interpolation 1 = 1"
    by (rule cosine_interpolation_0) (rule cosine_interpolation_1)
  have "enhanced_blend_frames A B 0 = Inr A \<and> enhanced_blend_frames A B 1 = Inr B"
    if "map length A = map length B"
    using that by (simp add: enhanced_blend_frames_def z addWeighted_first addWeighted_second)
  with s show ?thesis by blast
qed

theorem blend_identities_witness:
  "enhanced_blend_frames [[gray 10, gray 20]] [[gray 200, gray 250]] 0 = Inr [[gray 10, gray 20]]
   \<and> enhanced_blend_frames [[gray 10, gray 20]] [[gray 200, gray 250]] 1
       = Inr [[gray 200, gray 250]]
   \<and> enhanced_blend_frames [[gray 10, gray 20]] [[gray 10, gray 20]] (1/3)
       = Inr [[gray 10, gray 20]]"
  using blend_identities [of "[[gray 10, gray 20]]" "1/3" "[[gray 200, gray 250]]"]
  by simp

section \<open>Properties of the motion blur\<close>

lemma uniform_row: "assign_row (np_zeros (Suc 0, n)) 0 v = [replicate n v]"
  by (simp add: assign_row_def np_zeros_def)

lemma uniform_column: "assign_column (np_zeros (n, Suc 0)) 0 v = replicate n [v]"
  by (simp add: assign_column_def np_zeros_def)

text \<open>
  Claim C6. For every frame and intensity, the motion blur is one \<open>filter2D\<close> call with
  a kernel of \<open>k\<close> uniform weights \<open>1/k\<close>, \<open>k\<close> being the kernel size of the intensity:
  a single row (the horizontal axis) when the direction is left, right or horizontal, a
  single column (the vertical axis) when it is up, down or vertical; for every other
  direction the frame is returned unchanged, and no error is raised.
\<close>

theorem motion_blur_axes:
  "apply_motion_blur cv frame intensity direction =
     (let k = apply_motion_blur_kernel_size intensity
      in if direction \<in> {''left'', ''right'', ''horizontal''}
         then filter2D cv frame (- 1) [replicate (nat k) (1 / of_int k)]
         else if direction \<in> {''up'', ''down'', ''vertical''}
         then filter2D cv frame (- 1) (replicate (nat k) [1 / of_int k])
         else frame)"
  by (simp add: apply_motion_blur_def Let_def uniform_row uniform_column)

theorem motion_blur_axes_witness:
  "apply_motion_blur plain_cv2 [[gray 7]] 0 ''left''
     = filter2D plain_cv2 [[gray 7]] (- 1) [[1/3, 1/3, 1/3]]
   \<and> apply_motion_blur plain_cv2 [[gray 7]] 0 ''down''
     = filter2D plain_cv2 [[gray 7]] (- 1) [[1/3], [1/3], [1/3]]
   \<and> apply_motion_blur plain_cv2 [[gray 7]] 0 ''diagonal'' = [[gray 7]]"
  using motion_blur_axes [of plain_cv2 "[[gray 7]]" 0 "''left''"]
    motion_blur_axes [of plain_cv2 "[[gray 7]]" 0 "''down''"]
    motion_blur_axes [of plain_cv2 "[[gray 7]]" 0 "''diagonal''"]
  by (simp add: apply_motion_blur_kernel_size_def motion_blur_kernel_size_def py_int_def
      numeral_3_eq_3)

section \<open>Properties of the cyclic shift\<close>

lemma roll_list_length: "length (roll_list k xs) = length xs"
  by (simp add: roll_list_def)

lemma roll_list_nth:
  assumes "i < length xs"
  shows "roll_list k xs ! nat ((int i + k) mod int (length xs)) = xs ! i"
proof -
  define N where "N = int (length xs)"
  from assms have N: "0 < N" by (auto simp: N_def)
  from assms have ne: "xs \<noteq> []" by auto
  have j: "nat ((int i + k) mod N) < length xs"
    using N by (simp add: N_def nat_less_iff)
  have "int ((nat ((- k) mod N) + nat ((int i + k) mod N)) mod length xs)
      = ((- k) mod N + (int i + k) mod N) mod N"
    using N by (simp add: zmod_int N_def)
  also have "\<dots> = (- k + (int i + k)) mod N"
    by (simp add: mod_add_eq)
  also have "\<dots> = int i"
    using assms by (simp add: N_def)
  finally have "(nat ((- k) mod N) + nat ((int i + k) mod N)) mod length xs = i"
    by simp
  with j ne show ?thesis
    by (simp add: roll_list_def nth_rotate N_def)
qed

lemma np_roll_axis1_nth:
  assumes "r < length f" "c < length (f ! r)"
  shows "np_roll_axis1 f k ! r ! nat ((int c + k) mod int (length (f ! r))) = f ! r ! c"
  using assms by (simp add: np_roll_axis1_def roll_list_nth)

lemma np_roll_axis0_nth:
  assumes "r < length f"
  shows "np_roll_axis0 f k ! nat ((int r + k) mod int (length f)) = f ! r"
  using assms by (simp add: np_roll_axis0_def roll_list_nth)

section \<open>Properties of the pipelines\<close>

lemma loop_done:
  "n \<le> i \<Longrightarrow> transition_loop step i n s = (None, s)"
  by (simp add: transition_loop.simps)

lemma loop_eos1:
  "i < n \<Longrightarrow> transition_loop step i n \<lparr>cap1 = [], cap2 = b, out = w\<rparr>
     = (None, \<lparr>cap1 = [], cap2 = drop 1 b, out = w\<rparr>)"
  by (cases b) (simp_all add: transition_loop.simps [of step i n] cap_read_def)

lemma loop_eos2:
  "i < n \<Longrightarrow> transition_loop step i n \<lparr>cap1 = f # a, cap2 = [], out = w\<rparr>
     = (None, \<lparr>cap1 = a, cap2 = [], out = w\<rparr>)"
  by (simp add: transition_loop.simps [of step i n] cap_read_def)

lemma loop_emit:
  "i < n \<Longrightarrow> step i f g = Inr r \<Longrightarrow>
   transition_loop step i n \<lparr>cap1 = f # a, cap2 = g # b, out = w\<rparr>
     = transition_loop step (i + 1) n \<lparr>cap1 = a, cap2 = b, out = w @ [r]\<rparr>"
  by (simp add: transition_loop.simps [of step i n] cap_read_def)

lemma loop_total:
  assumes tot: "\<And>j f g. \<exists>r. step j f g = Inr r"
  shows "\<exists>fs. length fs = emitted_count (n - i) a b
    \<and> transition_loop step i n \<lparr>cap1 = a, cap2 = b, out = w\<rparr>
        = (None, \<lparr>cap1 = drop (pulled_count (n - i) a b) a,
                   cap2 = drop (pulled_count (n - i) a b) b, out = w @ fs\<rparr>)"
proof (induction a arbitrary: b w i)
  case Nil
  show ?case
  proof (cases "n \<le> i")
    case True
    then show ?thesis by (simp add: loop_done emitted_count_def pulled_count_def)
  next
    case False
    then have "i < n" "nat (n - i) = Suc (nat (n - (i + 1)))" by simp_all
    then show ?thesis by (simp add: loop_eos1 emitted_count_def pulled_count_def)
  qed
next
  case (Cons f a)
  show ?case
  proof (cases "n \<le> i")
    case True
    then show ?thesis by (simp add: loop_done emitted_count_def pulled_count_def)
  next
    case False
    then have lt: "i < n" by simp
    show ?thesis
    proof (cases b)
      case Nil
      from lt have "nat (n - i) = Suc (nat (n - (i + 1)))" by simp
      with Nil lt show ?thesis by (simp add: loop_eos2 emitted_count_def pulled_count_def)
    next
      case (Cons g b')
      from tot obtain r where r: "step i f g = Inr r" by blast
      from Cons.IH [of "i + 1" b' "w @ [r]"] obtain fs where
        fs: "length fs = emitted_count (n - (i + 1)) a b'"
          "transition_loop step (i + 1) n \<lparr>cap1 = a, cap2 = b', out = (w @ [r]) @ fs\<rparr>
             = transition_loop step (i + 1) n \<lparr>cap1 = a, cap2 = b', out = (w @ [r]) @ fs\<rparr>"
          "transition_loop step (i + 1) n \<lparr>cap1 = a, cap2 = b', out = w @ [r]\<rparr>
            = (None, \<lparr>cap1 = drop (pulled_count (n - (i + 1)) a b') a,
                 cap2 = drop (pulled_count (n - (i + 1)) a b') b', out = (w @ [r]) @ fs\<rparr>)"
        by blast
      have n1: "nat (n - i) = Suc (nat (n - (i + 1)))" using lt by simp
      have e: "emitted_count (n - i) (f # a) (g # b') = Suc (emitted_count (n - (i + 1)) a b')"
        by (simp add: emitted_count_def n1)
      have p: "pulled_count (n - i) (f # a) (g # b') = Suc (pulled_count (n - (i + 1)) a b')"
        by (simp add: pulled_count_def n1)
      have "length (r # fs) = emitted_count (n - i) (f # a) b"
        using fs(1) e Cons by simp
      moreover have "transition_loop step i n \<lparr>cap1 = f # a, cap2 = b, out = w\<rparr>
        = (None, \<lparr>cap1 = drop (pulled_count (n - i) (f # a) b) (f # a),
                   cap2 = drop (pulled_count (n - i) (f # a) b) b, out = w @ (r # fs)\<rparr>)"
        using fs(3) p Cons lt r by (simp add: loop_emit)
      ultimately show ?thesis by blast
    qed
  qed
qed

lemma run_total:
  assumes tot: "\<And>j f g. \<exists>r. step j f g = Inr r"
  shows "\<exists>fs. length fs = emitted_count n a b
    \<and> run_transition step a b n
        = (Returned PyNone, \<lparr>cap1 = drop (pulled_count n a b) a,
                   cap2 = drop (pulled_count n a b) b, out = fs\<rparr>)"
proof -
  from loop_total [of step n 0 a b "[]", OF tot] obtain fs where
    "length fs = emitted_count n a b"
    "transition_loop step 0 n \<lparr>cap1 = a, cap2 = b, out = []\<rparr>
        = (None, \<lparr>cap1 = drop (pulled_count n a b) a,
                   cap2 = drop (pulled_count n a b) b, out = fs\<rparr>)"
    by auto
  then show ?thesis by (auto simp: run_transition_def)
qed

lemma run_nonpositive:
  "n \<le> 0 \<Longrightarrow> run_transition step a b n = (Returned PyNone, \<lparr>cap1 = a, cap2 = b, out = []\<rparr>)"
  by (simp add: run_transition_def loop_done)

lemma addWeighted_ok:
  "map length a = map length b \<Longrightarrow>
   \<exists>r. addWeighted a alpha b beta gamma = Inr r \<and> map length r = map length a"
proof -
  assume s: "map length a = map length b"
  then have "addWeighted a alpha b beta gamma
      = Inr (map2 (map2 (weighted_pixel alpha beta gamma)) a b)"
    by (simp add: addWeighted_def)
  moreover have "map length (map2 (map2 (weighted_pixel alpha beta gamma)) a b) = map length a"
    using s by (rule map2_map2_shape)
  ultimately show ?thesis by blast
qed

lemma enhanced_blend_frames_ok:
  "map length a = map length b \<Longrightarrow>
   \<exists>r. enhanced_blend_frames a b p = Inr r \<and> map length r = map length a"
  unfolding enhanced_blend_frames_def Let_def by (rule addWeighted_ok)

lemma resize_same_shape:
  "cv2_keeps_shape self cv \<Longrightarrow>
   map length (resize cv f (output_width self, output_height self))
     = map length (resize cv g (output_width self, output_height self))"
  by (simp add: cv2_keeps_shape_def)

lemma py_truediv_ok: "b \<noteq> 0 \<Longrightarrow> py_truediv a b = Inr (fl (of_int a / of_int b))"
  by (simp add: py_truediv_def)

lemma dissolve_step_total:
  assumes "cv2_keeps_shape self cv" "n \<noteq> 1"
  shows "\<exists>r. dissolve_step self cv n j f g = Inr r"
proof -
  from assms(2) have d: "py_truediv j (n - 1) = Inr (fl (of_int j / of_int (n - 1)))"
    by (intro py_truediv_ok) simp
  from enhanced_blend_frames_ok [OF resize_same_shape [OF assms(1)]]
  obtain r where "enhanced_blend_frames (resize cv f (output_width self, output_height self))
      (resize cv g (output_width self, output_height self)) (fl (of_int j / of_int (n - 1)))
      = Inr r"
    by blast
  then show ?thesis
    by (simp add: dissolve_step_def Let_def d)
qed

lemma progressive_blur_step_total:
  assumes "cv2_keeps_shape self cv" "n \<noteq> 1"
  shows "\<exists>r. progressive_blur_step self cv n j f g = Inr r"
proof -
  from assms(2) have d: "py_truediv j (n - 1) = Inr (fl (of_int j / of_int (n - 1)))"
    by (intro py_truediv_ok) simp
  define p where "p = fl (real_of_int j / of_int (n - 1))"
  define b1 where "b1 = apply_progressive_blur cv
    (resize cv f (output_width self, output_height self)) (progressive_blur_intensity p)"
  define b2 where "b2 = apply_progressive_blur cv
    (resize cv g (output_width self, output_height self)) (progressive_blur_intensity p)"
  have "map length b1 = map length b2"
    using assms(1) resize_same_shape [OF assms(1), of f g]
    by (simp add: b1_def b2_def apply_progressive_blur_def Let_def cv2_keeps_shape_def)
  from enhanced_blend_frames_ok [OF this]
  obtain r where "enhanced_blend_frames b1 b2 p = Inr r" by blast
  then show ?thesis
    unfolding b1_def b2_def p_def
    by (simp add: progressive_blur_step_def Let_def d)
qed

lemma apply_motion_blur_shape:
  "cv2_keeps_shape self cv \<Longrightarrow> map length (apply_motion_blur cv f x d) = map length f"
  by (simp add: apply_motion_blur_def Let_def cv2_keeps_shape_def)

lemma rotate_replicate: "rotate n (replicate k x) = replicate k x"
  by (induction n) simp_all

lemma roll_list_replicate: "roll_list s (replicate k x) = replicate k x"
  by (simp add: roll_list_def rotate_replicate)

lemma roll_list_map: "roll_list s (map f xs) = map f (roll_list s xs)"
  by (simp add: roll_list_def rotate_map)

lemma np_roll_axis1_shape: "map length (np_roll_axis1 a s) = map length a"
  by (simp add: np_roll_axis1_def roll_list_length comp_def)

lemma np_roll_axis0_shape:
  "map length a = replicate h w \<Longrightarrow> map length (np_roll_axis0 a s) = replicate h w" for s
proof -
  assume a: "map length a = replicate h w"
  have "map length (roll_list s a) = roll_list s (map length a)"
    by (rule roll_list_map [symmetric])
  with a show ?thesis by (simp add: np_roll_axis0_def roll_list_replicate)
qed

lemma whip_pan_translate_shape:
  assumes "map length b1 = replicate h w" "map length b2 = replicate h w"
  shows "map length (fst (whip_pan_translate self d p b1 b2))
       = map length (snd (whip_pan_translate self d p b1 b2))"
  using assms
  by (simp add: whip_pan_translate_def Let_def np_roll_axis1_shape
      np_roll_axis0_shape [OF assms(1)] np_roll_axis0_shape [OF assms(2)])

lemma whip_pan_step_total:
  assumes "cv2_keeps_shape self cv" "n \<noteq> 1"
  shows "\<exists>r. whip_pan_step self cv d n j f g = Inr r"
proof -
  from assms(2) have dv: "py_truediv j (n - 1) = Inr (fl (of_int j / of_int (n - 1)))"
    by (intro py_truediv_ok) simp
  define p where "p = fl (real_of_int j / of_int (n - 1))"
  define b1 where "b1 = apply_motion_blur cv
    (resize cv f (output_width self, output_height self))
    (fl (fl (4.0 * p) * fl (1.0 - p))) d"
  define b2 where "b2 = apply_motion_blur cv
    (resize cv g (output_width self, output_height self))
    (fl (fl (4.0 * p) * fl (1.0 - p))) d"
  define t where "t = whip_pan_translate self d p b1 b2"
  have s1: "map length b1 = replicate (nat (output_height self)) (nat (output_width self))"
    using assms(1) by (simp add: b1_def apply_motion_blur_shape) (simp add: cv2_keeps_shape_def)
  have s2: "map length b2 = replicate (nat (output_height self)) (nat (output_width self))"
    using assms(1) by (simp add: b2_def apply_motion_blur_shape) (simp add: cv2_keeps_shape_def)
  have "map length (fst t) = map length (snd t)"
    unfolding t_def using s1 s2 by (rule whip_pan_translate_shape)
  from enhanced_blend_frames_ok [OF this]
  obtain r where "enhanced_blend_frames (fst t) (snd t) p = Inr r" by blast
  then show ?thesis
    unfolding t_def b1_def b2_def p_def
    by (simp add: whip_pan_step_def Let_def dv split_beta)
qed

lemma np_hstack_ok: "map length a = map length b \<Longrightarrow> \<exists>r. np_hstack a b = Inr r"
proof -
  assume "map length a = map length b"
  then have "length (map length a) = length (map length b)" by simp
  then show ?thesis by (simp add: np_hstack_def)
qed

lemma comparison_step_total:
  assumes "cv2_keeps_shape self cv" "n \<noteq> 1"
  shows "\<exists>r. comparison_step self cv n j f g = Inr r"
proof -
  from assms(2) have dv: "py_truediv j (n - 1) = Inr (fl (of_int j / of_int (n - 1)))"
    by (intro py_truediv_ok) simp
  define p where "p = fl (real_of_int j / of_int (n - 1))"
  define f1 where "f1 = resize cv f (output_width self, output_height self)"
  define f2 where "f2 = resize cv g (output_width self, output_height self)"
  have s: "map length f1 = map length f2"
    unfolding f1_def f2_def using assms(1) by (rule resize_same_shape)
  from addWeighted_ok [OF s] obtain l where
    l: "addWeighted f1 (1.0 - p) f2 p 0 = Inr l" "map length l = map length f1" by blast
  from enhanced_blend_frames_ok [OF s] obtain r where
    r: "enhanced_blend_frames f1 f2 p = Inr r" "map length r = map length f1" by blast
  from l(2) r(2) have "map length l = map length r" by simp
  from np_hstack_ok [OF this] obtain c where c: "np_hstack l r = Inr c" by blast
  show ?thesis
    using l(1) r(1) c unfolding f1_def f2_def p_def
    by (simp add: comparison_step_def Let_def dv)
qed

lemma crop_or_pad_shape:
  "map length (crop_or_pad f (w, h)) = replicate (nat h) (nat w)"
proof -
  have r: "map length (map (\<lambda>row. take n (row @ replicate n z)) xs) = replicate (length xs) n"
    for n and z :: pixel and xs
    by (induction xs) simp_all
  have "length (take m (f @ replicate m [])) = m" for m
    by simp
  then show ?thesis
    by (simp only: crop_or_pad_def Let_def fst_conv snd_conv r)
qed

lemma plain_cv2_keeps_shape: "cv2_keeps_shape self plain_cv2"
  by (simp add: cv2_keeps_shape_def plain_cv2_def crop_or_pad_shape)

lemma run_total_facts:
  assumes tot: "\<And>j f g. \<exists>r. step j f g = Inr r"
  shows "fst (run_transition step a b n) = Returned PyNone"
    and "length (out (snd (run_transition step a b n))) = emitted_count n a b"
    and "cap1 (snd (run_transition step a b n)) = drop (pulled_count n a b) a"
    and "cap2 (snd (run_transition step a b n)) = drop (pulled_count n a b) b"
proof -
  from run_total [of step n a b, OF tot] obtain fs where
    "length fs = emitted_count n a b"
    "run_transition step a b n
        = (Returned PyNone, \<lparr>cap1 = drop (pulled_count n a b) a,
                   cap2 = drop (pulled_count n a b) b, out = fs\<rparr>)"
    by blast
  then show "fst (run_transition step a b n) = Returned PyNone"
    and "length (out (snd (run_transition step a b n))) = emitted_count n a b"
    and "cap1 (snd (run_transition step a b n)) = drop (pulled_count n a b) a"
    and "cap2 (snd (run_transition step a b n)) = drop (pulled_count n a b) b"
    by simp_all
qed

lemma entry_points_step:
  assumes "run \<in> set (entry_points self cv d)"
  shows "\<exists>step \<in> {dissolve_step self cv n, progressive_blur_step self cv n,
                  whip_pan_step self cv d n, comparison_step self cv n}.
           \<forall>a b. run a b n = run_transition step a b n"
proof -
  from assms consider "run = create_enhanced_dissolve_transition self cv"
    | "run = create_progressive_blur_transition self cv"
    | "run = (\<lambda>video1 video2. create_whip_pan_transition self cv video1 video2 d)"
    | "run = create_comparison_demo self cv"
    by (auto simp: entry_points_def)
  then show ?thesis
  proof cases
    case 1
    then have "\<forall>a b. run a b n = run_transition (dissolve_step self cv n) a b n"
      by (simp add: create_enhanced_dissolve_transition_def)
    then show ?thesis by blast
  next
    case 2
    then have "\<forall>a b. run a b n = run_transition (progressive_blur_step self cv n) a b n"
      by (simp add: create_progressive_blur_transition_def)
    then show ?thesis by blast
  next
    case 3
    then have "\<forall>a b. run a b n = run_transition (whip_pan_step self cv d n) a b n"
      by (simp add: create_whip_pan_transition_def)
    then show ?thesis by blast
  next
    case 4
    then have "\<forall>a b. run a b n = run_transition (comparison_step self cv n) a b n"
      by (simp add: create_comparison_demo_def)
    then show ?thesis by blast
  qed
qed

lemma entry_step_total:
  assumes "cv2_keeps_shape self cv" "n \<noteq> 1"
    and "step \<in> {dissolve_step self cv n, progressive_blur_step self cv n,
                  whip_pan_step self cv d n, comparison_step self cv n}"
  shows "\<exists>r. step j f g = Inr r"
  using assms(3) dissolve_step_total [OF assms(1,2)] progressive_blur_step_total [OF assms(1,2)]
    whip_pan_step_total [OF assms(1,2)] comparison_step_total [OF assms(1,2)]
  by blast

section \<open>The whip pan step\<close>

text \<open>
  Truncation moves a float by less than one, and the two rounded products of the offset
  stay within a relative error of \<open>2^-51\<close> of the exact product.
\<close>

lemma py_int_close: "\<bar>of_int (py_int x) - x\<bar> < 1"
proof (cases "0 \<le> x")
  case True
  then show ?thesis by (simp add: py_int_def) linarith
next
  case False
  then show ?thesis by (simp add: py_int_def) linarith
qed

lemma whip_offset_rounding:
  fixes E q s :: real
  assumes s: "\<bar>s\<bar> = 1"
  shows "\<bar>fl (fl (E * fl q) * s) - E * q * s\<bar> \<le> \<bar>E * q\<bar> / 2 ^ 51"
proof -
  define e :: real where "e = 1 / 2 ^ 53"
  have e: "0 \<le> e" "e \<le> 1 / 4" by (simp_all add: e_def)
  have fe: "\<bar>fl x - x\<bar> \<le> b * e" if "\<bar>x\<bar> \<le> b" for x b
  proof -
    have "\<bar>fl x - x\<bar> \<le> \<bar>x\<bar> * e"
      using fl_error [of x] by (simp add: e_def)
    moreover have "\<bar>x\<bar> * e \<le> b * e"
      using that e(1) by (rule mult_right_mono)
    ultimately show ?thesis by (rule order_trans)
  qed
  define B where "B = \<bar>E * q\<bar>"
  define r where "r = B * e"
  define r2 where "r2 = r * e"
  define r3 where "r3 = r2 * e"
  have B: "0 \<le> B" by (simp add: B_def)
  have r: "0 \<le> r" using B e(1) by (simp add: r_def)
  have r2: "0 \<le> r2" "r2 \<le> r / 4"
  proof -
    show "0 \<le> r2" using r e(1) by (simp add: r2_def)
    have "r * e \<le> r * (1 / 4)" using e(2) r by (rule mult_left_mono)
    then show "r2 \<le> r / 4" by (simp add: r2_def)
  qed
  have r3: "r3 \<le> r2"
  proof -
    have "r2 * e \<le> r2 * 1" using r2(1) e(2) by (intro mult_left_mono) simp_all
    then show ?thesis by (simp add: r3_def)
  qed
  define p where "p = fl q"
  define y where "y = fl (E * p)"
  define x where "x = fl (y * s)"
  have "\<bar>p - q\<bar> \<le> \<bar>q\<bar> * e" unfolding p_def by (rule fe) simp
  then have "\<bar>E\<bar> * \<bar>p - q\<bar> \<le> \<bar>E\<bar> * (\<bar>q\<bar> * e)"
    by (intro mult_left_mono) simp_all
  moreover have "\<bar>E * p - E * q\<bar> = \<bar>E\<bar> * \<bar>p - q\<bar>"
    by (simp add: abs_mult [symmetric] right_diff_distrib)
  moreover have "\<bar>E\<bar> * (\<bar>q\<bar> * e) = r"
    by (simp add: r_def B_def abs_mult)
  ultimately have a: "\<bar>E * p - E * q\<bar> \<le> r" by (simp only:)
  then have ab: "\<bar>E * p\<bar> \<le> B + r" unfolding B_def by linarith
  then have "\<bar>y - E * p\<bar> \<le> (B + r) * e" unfolding y_def by (rule fe)
  moreover have "(B + r) * e = r + r2" by (simp add: r_def r2_def algebra_simps)
  ultimately have b: "\<bar>y - E * p\<bar> \<le> r + r2" by (simp only:)
  from a b have c: "\<bar>y - E * q\<bar> \<le> 2 * r + r2" by linarith
  then have yb: "\<bar>y\<bar> \<le> B + 2 * r + r2" unfolding B_def by linarith
  have "\<bar>y * s\<bar> = \<bar>y\<bar>" using s by (simp add: abs_mult)
  with yb have "\<bar>y * s\<bar> \<le> B + 2 * r + r2" by simp
  then have "\<bar>x - y * s\<bar> \<le> (B + 2 * r + r2) * e" unfolding x_def by (rule fe)
  moreover have "(B + 2 * r + r2) * e = r + 2 * r2 + r3"
    by (simp add: r_def r2_def r3_def algebra_simps)
  ultimately have d: "\<bar>x - y * s\<bar> \<le> r + 2 * r2 + r3" by (simp only:)
  have "\<bar>y * s - E * q * s\<bar> = \<bar>y - E * q\<bar> * \<bar>s\<bar>"
    by (simp add: abs_mult [symmetric] left_diff_distrib)
  with c s have f: "\<bar>y * s - E * q * s\<bar> \<le> 2 * r + r2" by simp
  from d f have "\<bar>x - E * q * s\<bar> \<le> 3 * r + 3 * r2 + r3" by linarith
  with r2 r3 have "\<bar>x - E * q * s\<bar> \<le> 4 * r" by linarith
  moreover have "4 * r = \<bar>E * q\<bar> / 2 ^ 51" by (simp add: r_def B_def e_def)
  ultimately show ?thesis unfolding x_def y_def p_def by (simp only:)
qed

lemma whip_offset_close:
  fixes E q s :: real
  assumes "\<bar>s\<bar> = 1"
  shows "\<bar>of_int (py_int (fl (fl (E * fl q) * s))) - E * q * s\<bar> < 1 + \<bar>E * q\<bar> / 2 ^ 51"
  using py_int_close [of "fl (fl (E * fl q) * s)"] whip_offset_rounding [OF assms, of E q]
  by linarith

lemma whip_pan_step_unfold:
  assumes "direction \<in> {''left'', ''right'', ''up'', ''down''}" "total_steps \<noteq> 1"
  shows "whip_pan_step self cv direction total_steps frame_num frame1 frame2 =
     (let progress = fl (of_int frame_num / of_int (total_steps - 1));
          motion = fl (fl (4 * progress) * fl (1 - progress));
          sgn = (if direction \<in> {''right'', ''down''} then 1 else - 1);
          horizontal = (direction \<in> {''left'', ''right''});
          total_extent = (if horizontal then output_width self else output_height self);
          shift = py_int (fl (fl (of_int total_extent * progress) * sgn));
          roll = (if horizontal then np_roll_axis1 else np_roll_axis0);
          outgoing = apply_motion_blur cv
            (resize cv frame1 (output_width self, output_height self)) motion direction;
          incoming = apply_motion_blur cv
            (resize cv frame2 (output_width self, output_height self)) motion direction
      in case enhanced_blend_frames (roll outgoing shift) (roll incoming (shift - total_extent))
                progress of
           Inl e \<Rightarrow> Inl e
         | Inr blended \<Rightarrow>
             Inr (putText cv
                   (putText cv blended
                      [Lit ''Whip Pan '', Lit (py_upper direction), Lit '' - Motion: '',
                       Flt motion 3]
                      (10, 30) FONT_HERSHEY_SIMPLEX 0.7 (255, 255, 255) 2)
                   [Lit ''Kernel Size: '', Dec (motion_blur_kernel_size motion)]
                   (10, 60) FONT_HERSHEY_SIMPLEX 0.7 (0, 255, 255) 2))"
proof -
  from assms(2) have dv: "py_truediv frame_num (total_steps - 1)
      = Inr (fl (of_int frame_num / of_int (total_steps - 1)))"
    by (intro py_truediv_ok) simp
  from assms(1) consider "direction = ''left''" | "direction = ''right''"
    | "direction = ''up''" | "direction = ''down''"
    by blast
  then show ?thesis
  proof cases
    case 1
    show ?thesis unfolding 1
      by (simp add: whip_pan_step_def whip_pan_translate_def dv Let_def split: sum.splits)
  next
    case 2
    show ?thesis unfolding 2
      by (simp add: whip_pan_step_def whip_pan_translate_def dv Let_def split: sum.splits)
  next
    case 3
    show ?thesis unfolding 3
      by (simp add: whip_pan_step_def whip_pan_translate_def dv Let_def split: sum.splits)
  next
    case 4
    show ?thesis unfolding 4
      by (simp add: whip_pan_step_def whip_pan_translate_def dv Let_def split: sum.splits)
  qed
qed

lemma crop_or_pad_same:
  assumes "map length f = replicate h w"
  shows "crop_or_pad f (int w, int h) = f"
proof -
  from assms have "length (map length f) = h" by simp
  then have l: "length f = h" by simp
  have "length row = w" if "row \<in> set f" for row
  proof -
    from that have "length row \<in> set (map length f)" by simp
    then show ?thesis unfolding assms by simp
  qed
  then have "map (\<lambda>row. take w (row @ replicate w (0, 0, 0))) f = f"
    by (intro map_idI) simp
  with l show ?thesis by (simp add: crop_or_pad_def)
qed

lemma ramp_shape: "map length (ramp n b) = replicate n 1"
  by (simp add: ramp_def comp_def map_replicate_const)

lemma ramp_nth: "i < n \<Longrightarrow> ramp n b ! i = [gray (b + i)]"
  by (simp add: ramp_def)

lemma apply_motion_blur_plain: "apply_motion_blur plain_cv2 f x d = f"
  by (simp add: apply_motion_blur_def plain_cv2_def Let_def)

lemma putText_plain: "putText plain_cv2 f t org font scale color thickness = f"
  by (simp add: plain_cv2_def)

text \<open>
  Step 15 of 23 on 22 rows: \<open>15 / 22\<close> rounds down to a double, its product with 22 is
  \<open>15 - 10 / 2^53\<close> and rounds to the double just below 15.
\<close>

lemma fl_15_22: "fl (15 / 22) = 6141272219141585 / 2 ^ 53"
  by (subst fl_small [where n = 53]) (simp_all add: cv_round_def)

lemma fl_22_times: "fl (22 * (6141272219141585 / 2 ^ 53)) = 8444249301319679 / 2 ^ 49"
  by (subst fl_small [where n = 49]) (simp_all add: cv_round_def)

lemma fl_15_minus_ulp: "fl (8444249301319679 / 2 ^ 49) = 8444249301319679 / 2 ^ 49"
  by (subst fl_small [where n = 49]) (simp_all add: cv_round_def)

lemma whip_offset_22_15: "py_int (fl (fl (22 * fl (15 / 22)))) = 14"
proof -
  have "fl (fl (22 * fl (15 / 22))) = fl (fl (22 * (6141272219141585 / 2 ^ 53)))"
    by (simp only: fl_15_22)
  also have "\<dots> = fl (8444249301319679 / 2 ^ 49)"
    by (simp only: fl_22_times)
  also have "\<dots> = 8444249301319679 / 2 ^ 49"
    by (rule fl_15_minus_ulp)
  finally have e: "fl (fl (22 * fl (15 / 22))) = 8444249301319679 / 2 ^ 49" .
  have "py_int (8444249301319679 / 2 ^ 49) = 14"
    by (simp add: py_int_def)
  then show ?thesis by (simp only: e)
qed

lemma fl_7_10: "fl (7 / 10) = 6305039478318694 / 2 ^ 53"
  by (subst fl_small [where n = 53]) (simp_all add: cv_round_def)

lemma fl_720_times: "fl (720 * (6305039478318694 / 2 ^ 53)) = 8866461766385663 / 2 ^ 44"
  by (subst fl_small [where n = 44]) (simp_all add: cv_round_def)

lemma fl_504_minus_ulp: "fl (8866461766385663 / 2 ^ 44) = 8866461766385663 / 2 ^ 44"
  by (subst fl_small [where n = 44]) (simp_all add: cv_round_def)

lemma whip_offset_720_7: "py_int (fl (fl (720 * fl (7 / 10)))) = 503"
proof -
  have "fl (fl (720 * fl (7 / 10))) = fl (fl (720 * (6305039478318694 / 2 ^ 53)))"
    by (simp only: fl_7_10)
  also have "\<dots> = fl (8866461766385663 / 2 ^ 44)"
    by (simp only: fl_720_times)
  also have "\<dots> = 8866461766385663 / 2 ^ 44"
    by (rule fl_504_minus_ulp)
  finally have e: "fl (fl (720 * fl (7 / 10))) = 8866461766385663 / 2 ^ 44" .
  have "py_int (8866461766385663 / 2 ^ 44) = 503"
    by (simp add: py_int_def)
  then show ?thesis by (simp only: e)
qed

text \<open>
  Claim C7, as stated, fails: the shift is not \<open>total_extent * p * sign\<close>. On frames of 22
  rows, panning down, step 15 of 23 has \<open>p = 15/22\<close> and the claimed shift is 15 rows;
  the code divides and multiplies in doubles, \<open>22 * (15 / 22)\<close> comes out as
  \<open>14.999999999999998\<close>, \<open>int\<close> truncates it, and both frames are rolled by 14 rows,
  by the whole step as by its lines 181-188 alone. Likewise on 720 rows, at step 7 of 11,
  the offset is 503 where the product is 504.
\<close>

theorem whip_pan_shift_counterexample:
  "whip_pan_step \<lparr>output_width = 1, output_height = 22, fps = 30\<rparr> plain_cv2 ''down'' 23 15
       (ramp 22 0) (ramp 22 100)
     = enhanced_blend_frames (np_roll_axis0 (ramp 22 0) 14)
         (np_roll_axis0 (ramp 22 100) (14 - 22)) (fl (15 / 22))
   \<and> py_truediv 15 (23 - 1) = Inr (fl (15 / 22))
   \<and> whip_pan_translate \<lparr>output_width = 1, output_height = 22, fps = 30\<rparr> ''down''
         (fl (15 / 22)) (ramp 22 0) (ramp 22 100)
     = (np_roll_axis0 (ramp 22 0) 14, np_roll_axis0 (ramp 22 100) (14 - 22))
   \<and> (22 :: real) * (15 / 22) * 1 = 15
   \<and> np_roll_axis0 (ramp 22 0) 14 \<noteq> np_roll_axis0 (ramp 22 0) 15
   \<and> py_truediv 7 (11 - 1) = Inr (fl (7 / 10))
   \<and> py_int (fl (fl (of_int 720 * fl (7 / 10)) * 1)) = 503
   \<and> (720 :: real) * (7 / 10) * 1 = 504"
proof -
  let ?self = "\<lparr>output_width = 1, output_height = 22, fps = 30\<rparr>"
  have r: "resize plain_cv2 (ramp 22 b) (output_width ?self, output_height ?self) = ramp 22 b"
    for b
    using crop_or_pad_same [OF ramp_shape, of 22 b] by (simp add: plain_cv2_def)
  have p: "putText plain_cv2 f t org font scale color thickness = f"
    for f t org font scale color thickness
    by (simp add: plain_cv2_def)
  have "whip_pan_step ?self plain_cv2 ''down'' 23 15 (ramp 22 0) (ramp 22 100)
     = (case enhanced_blend_frames (np_roll_axis0 (ramp 22 0) 14)
         (np_roll_axis0 (ramp 22 100) (14 - 22)) (fl (15 / 22)) of
           Inl e \<Rightarrow> Inl e | Inr blended \<Rightarrow> Inr blended)"
    by (subst whip_pan_step_unfold)
      (simp_all only: Let_def r p apply_motion_blur_plain, simp_all add: whip_offset_22_15)
  then have a: "whip_pan_step ?self plain_cv2 ''down'' 23 15 (ramp 22 0) (ramp 22 100)
     = enhanced_blend_frames (np_roll_axis0 (ramp 22 0) 14)
         (np_roll_axis0 (ramp 22 100) (14 - 22)) (fl (15 / 22))"
    by (simp split: sum.splits)
  have "np_roll_axis0 (ramp 22 0) 14 ! nat ((int 0 + 14) mod int (length (ramp 22 0)))
      = ramp 22 0 ! 0"
    by (rule np_roll_axis0_nth) (simp add: ramp_def)
  then have x: "np_roll_axis0 (ramp 22 0) 14 ! 14 = [gray 0]"
    by (simp add: ramp_nth) (simp add: ramp_def)
  have "np_roll_axis0 (ramp 22 0) 15 ! nat ((int 21 + 15) mod int (length (ramp 22 0)))
      = ramp 22 0 ! 21"
    by (rule np_roll_axis0_nth) (simp add: ramp_def)
  then have y: "np_roll_axis0 (ramp 22 0) 15 ! 14 = [gray 21]"
    by (simp add: ramp_nth) (simp add: ramp_def)
  have "[gray 0] \<noteq> [gray 21]" by (simp add: gray_def)
  with x y have c: "np_roll_axis0 (ramp 22 0) 14 \<noteq> np_roll_axis0 (ramp 22 0) 15"
    by metis
  have d: "py_truediv 15 (23 - 1) = Inr (fl (15 / 22))"
    "py_truediv 7 (11 - 1) = Inr (fl (7 / 10))"
    by (simp_all add: py_truediv_def)
  have t: "whip_pan_translate ?self ''down'' (fl (15 / 22)) (ramp 22 0) (ramp 22 100)
     = (np_roll_axis0 (ramp 22 0) 14, np_roll_axis0 (ramp 22 100) (14 - 22))"
    by (simp add: whip_pan_translate_def Let_def whip_offset_22_15)
  have o: "py_int (fl (fl (of_int 720 * fl (7 / 10)) * 1)) = 503"
    using whip_offset_720_7 by simp
  have n: "(22 :: real) * (15 / 22) * 1 = 15" "(720 :: real) * (7 / 10) * 1 = 504"
    by simp_all
  show ?thesis
    by (intro conjI) (rule a, rule d(1), rule t, rule n(1), rule c, rule d(2), rule o, rule n(2))
qed

text \<open>
  Claim C7, amended. In the whip pan, for each of the directions left, right, up and
  down and every step of a run whose step count is not one, on a library whose resize
  yields the configured size and whose filters keep the frame size, the frame the step
  emits is the text overlay on the blend of two rolled frames: the outgoing frame (the
  resized and motion-blurred frame of the first source) rolled along the pan axis (the
  columns for left and right, the rows for up and down) by \<open>shift\<close>, and the incoming
  frame (that of the second source) rolled by \<open>shift - total_extent\<close>. The shift is
  \<open>int(total_extent * progress * sign)\<close> evaluated in doubles, \<open>progress\<close> being the double
  nearest to \<open>step / (total_steps - 1)\<close> and the sign +1 for right and down, -1 for left
  and up: a whole number of samples, less than one sample plus a rounding error of
  \<open>|total_extent * step / (total_steps - 1)| / 2^51\<close> away from the exact product. A roll
  wraps around: the sample at position \<open>i\<close> moves to position \<open>(i + shift) mod extent\<close>.
\<close>

theorem whip_pan_step_shifts:
  assumes "cv2_keeps_shape self cv"
    and "direction \<in> {''left'', ''right'', ''up'', ''down''}"
    and "total_steps \<noteq> 1"
  shows "(let progress = fl (of_int frame_num / of_int (total_steps - 1));
             motion = fl (fl (4 * progress) * fl (1 - progress));
             sgn = (if direction \<in> {''right'', ''down''} then 1 else - 1);
             horizontal = (direction \<in> {''left'', ''right''});
             total_extent = (if horizontal then output_width self else output_height self);
             shift = py_int (fl (fl (of_int total_extent * progress) * sgn));
             roll = (if horizontal then np_roll_axis1 else np_roll_axis0);
             outgoing = apply_motion_blur cv
               (resize cv frame1 (output_width self, output_height self)) motion direction;
             incoming = apply_motion_blur cv
               (resize cv frame2 (output_width self, output_height self)) motion direction
         in (\<exists>blended.
              enhanced_blend_frames (roll outgoing shift) (roll incoming (shift - total_extent))
                progress = Inr blended
              \<and> whip_pan_step self cv direction total_steps frame_num frame1 frame2
                = Inr (putText cv
                        (putText cv blended
                           [Lit ''Whip Pan '', Lit (py_upper direction), Lit '' - Motion: '',
                            Flt motion 3]
                           (10, 30) FONT_HERSHEY_SIMPLEX 0.7 (255, 255, 255) 2)
                        [Lit ''Kernel Size: '', Dec (motion_blur_kernel_size motion)]
                        (10, 60) FONT_HERSHEY_SIMPLEX 0.7 (0, 255, 255) 2))
            \<and> \<bar>of_int shift
                 - of_int total_extent * (of_int frame_num / of_int (total_steps - 1)) * sgn\<bar>
                < 1 + \<bar>of_int total_extent * (of_int frame_num / of_int (total_steps - 1))\<bar>
                        / 2 ^ 51)
    \<and> (\<forall>f k r c. r < length f \<and> c < length (f ! r) \<longrightarrow>
          np_roll_axis1 f k ! r ! nat ((int c + k) mod int (length (f ! r))) = f ! r ! c)
    \<and> (\<forall>f k r. r < length f \<longrightarrow>
          np_roll_axis0 f k ! nat ((int r + k) mod int (length f)) = f ! r)"
    (is "?shifted \<and> ?wraps1 \<and> ?wraps0")
proof -
  have w1: ?wraps1 using np_roll_axis1_nth by blast
  have w0: ?wraps0 using np_roll_axis0_nth by blast
  let ?progress = "fl (real_of_int frame_num / of_int (total_steps - 1))"
  let ?motion = "fl (fl (4 * ?progress) * fl (1 - ?progress))"
  let ?horizontal = "direction \<in> {''left'', ''right''}"
  let ?total_extent = "if ?horizontal then output_width self else output_height self"
  let ?shift = "py_int (fl (fl (of_int ?total_extent * ?progress)
    * (if direction \<in> {''right'', ''down''} then 1 else - 1)))"
  let ?roll = "if ?horizontal then np_roll_axis1 else np_roll_axis0"
  let ?outgoing = "apply_motion_blur cv
    (resize cv frame1 (output_width self, output_height self)) ?motion direction"
  let ?incoming = "apply_motion_blur cv
    (resize cv frame2 (output_width self, output_height self)) ?motion direction"
  have s1: "map length ?outgoing = replicate (nat (output_height self)) (nat (output_width self))"
    using assms(1)
    by (simp only: apply_motion_blur_shape [OF assms(1)]) (simp add: cv2_keeps_shape_def)
  have s2: "map length ?incoming = replicate (nat (output_height self)) (nat (output_width self))"
    using assms(1)
    by (simp only: apply_motion_blur_shape [OF assms(1)]) (simp add: cv2_keeps_shape_def)
  have "map length (?roll ?outgoing ?shift) = map length (?roll ?incoming (?shift - ?total_extent))"
  proof (cases ?horizontal)
    case True
    then show ?thesis
      by (simp only: if_True np_roll_axis1_shape s1 s2)
  next
    case False
    then show ?thesis
      by (simp only: if_False np_roll_axis0_shape [OF s1] np_roll_axis0_shape [OF s2])
  qed
  from enhanced_blend_frames_ok [OF this] obtain blended where
    b: "enhanced_blend_frames (?roll ?outgoing ?shift) (?roll ?incoming (?shift - ?total_extent))
      ?progress = Inr blended"
    by blast
  have st: "whip_pan_step self cv direction total_steps frame_num frame1 frame2
      = Inr (putText cv
              (putText cv blended
                 [Lit ''Whip Pan '', Lit (py_upper direction), Lit '' - Motion: '', Flt ?motion 3]
                 (10, 30) FONT_HERSHEY_SIMPLEX 0.7 (255, 255, 255) 2)
              [Lit ''Kernel Size: '', Dec (motion_blur_kernel_size ?motion)]
              (10, 60) FONT_HERSHEY_SIMPLEX 0.7 (0, 255, 255) 2)"
    unfolding whip_pan_step_unfold [OF assms(2,3)] Let_def
    by (simp only: b sum.case)
  have cl: "\<bar>real_of_int ?shift
        - of_int ?total_extent * (of_int frame_num / of_int (total_steps - 1))
          * (if direction \<in> {''right'', ''down''} then 1 else - 1)\<bar>
      < 1 + \<bar>real_of_int ?total_extent * (of_int frame_num / of_int (total_steps - 1))\<bar> / 2 ^ 51"
    by (rule whip_offset_close) simp
  have s: ?shifted
    unfolding Let_def by (intro exI conjI) (rule b, rule st, rule cl)
  show ?thesis by (rule conjI, rule s, rule conjI, rule w1, rule w0)
qed

theorem whip_pan_step_shifts_witness:
  "whip_pan_step \<lparr>output_width = 4, output_height = 1, fps = 30\<rparr> plain_cv2 ''left'' 3 1
       [[gray 10, gray 20, gray 30, gray 40]] [[gray 50, gray 60, gray 70, gray 80]]
     = enhanced_blend_frames [[gray 30, gray 40, gray 10, gray 20]]
         [[gray 70, gray 80, gray 50, gray 60]] (1/2)
   \<and> whip_pan_step \<lparr>output_width = 1, output_height = 3, fps = 30\<rparr> plain_cv2 ''down'' 3 1
       [[gray 10], [gray 20], [gray 30]] [[gray 50], [gray 60], [gray 70]]
     = enhanced_blend_frames [[gray 30], [gray 10], [gray 20]]
         [[gray 70], [gray 50], [gray 60]] (1/2)"
proof -
  have r: "resize plain_cv2 [[gray 10, gray 20, gray 30, gray 40]] (4, 1)
        = [[gray 10, gray 20, gray 30, gray 40]]"
      "resize plain_cv2 [[gray 50, gray 60, gray 70, gray 80]] (4, 1)
        = [[gray 50, gray 60, gray 70, gray 80]]"
      "resize plain_cv2 [[gray 10], [gray 20], [gray 30]] (1, 3)
        = [[gray 10], [gray 20], [gray 30]]"
      "resize plain_cv2 [[gray 50], [gray 60], [gray 70]] (1, 3)
        = [[gray 50], [gray 60], [gray 70]]"
    by (simp_all add: plain_cv2_def crop_or_pad_def)
  have s: "np_roll_axis1 [[gray 10, gray 20, gray 30, gray 40]] (- 2)
        = [[gray 30, gray 40, gray 10, gray 20]]"
      "np_roll_axis1 [[gray 50, gray 60, gray 70, gray 80]] (- 6)
        = [[gray 70, gray 80, gray 50, gray 60]]"
      "np_roll_axis0 [[gray 10], [gray 20], [gray 30]] 1 = [[gray 30], [gray 10], [gray 20]]"
      "np_roll_axis0 [[gray 50], [gray 60], [gray 70]] (- 2)
        = [[gray 70], [gray 50], [gray 60]]"
    by (simp_all add: np_roll_axis1_def np_roll_axis0_def roll_list_def numeral_2_eq_2)
  have a: "whip_pan_step \<lparr>output_width = 4, output_height = 1, fps = 30\<rparr> plain_cv2 ''left'' 3 1
       [[gray 10, gray 20, gray 30, gray 40]] [[gray 50, gray 60, gray 70, gray 80]]
     = enhanced_blend_frames [[gray 30, gray 40, gray 10, gray 20]]
         [[gray 70, gray 80, gray 50, gray 60]] (1/2)"
    using whip_pan_step_shifts [where self = "\<lparr>output_width = 4, output_height = 1, fps = 30\<rparr>"
        and cv = plain_cv2 and direction = "''left''" and total_steps = 3 and frame_num = 1
        and ?frame1.0 = "[[gray 10, gray 20, gray 30, gray 40]]"
        and ?frame2.0 = "[[gray 50, gray 60, gray 70, gray 80]]", OF plain_cv2_keeps_shape,
        THEN conjunct1]
    unfolding Let_def
    by (auto simp: fl_half fl_1 fl_2 fl_minus py_int_def apply_motion_blur_plain putText_plain
        r s)
  have b: "whip_pan_step \<lparr>output_width = 1, output_height = 3, fps = 30\<rparr> plain_cv2 ''down'' 3 1
       [[gray 10], [gray 20], [gray 30]] [[gray 50], [gray 60], [gray 70]]
     = enhanced_blend_frames [[gray 30], [gray 10], [gray 20]]
         [[gray 70], [gray 50], [gray 60]] (1/2)"
    using whip_pan_step_shifts [where self = "\<lparr>output_width = 1, output_height = 3, fps = 30\<rparr>"
        and cv = plain_cv2 and direction = "''down''" and total_steps = 3 and frame_num = 1
        and ?frame1.0 = "[[gray 10], [gray 20], [gray 30]]"
        and ?frame2.0 = "[[gray 50], [gray 60], [gray 70]]", OF plain_cv2_keeps_shape,
        THEN conjunct1]
    unfolding Let_def
    by (auto simp: fl_half fl_3_2 fl_1 fl_2 fl_minus py_int_def apply_motion_blur_plain
        putText_plain r s)
  from a b show ?thesis by (rule conjI)
qed

section \<open>Whole runs\<close>

text \<open>
  Claim C9. For every transition type the loop ends at the first step at which a frame
  source signals end-of-stream, or when the step count is reached: with a step count
  other than one, a call returns normally (no error is raised for a short source), it
  has emitted one frame for each step before the end, none for the step that observed
  the end of a stream, and it has pulled from each source the frames of the emitted
  steps and the one read that found a source exhausted.
\<close>

theorem end_of_stream_truncates:
  assumes "cv2_keeps_shape self cv" "total_steps \<noteq> 1"
  shows "\<forall>run \<in> set (entry_points self cv direction).
     fst (run src1 src2 total_steps) = Returned PyNone
     \<and> length (out (snd (run src1 src2 total_steps))) = emitted_count total_steps src1 src2
     \<and> cap1 (snd (run src1 src2 total_steps)) = drop (pulled_count total_steps src1 src2) src1
     \<and> cap2 (snd (run src1 src2 total_steps)) = drop (pulled_count total_steps src1 src2) src2"
proof
  fix run
  assume "run \<in> set (entry_points self cv direction)"
  from entry_points_step [OF this, of total_steps]
  obtain step where run: "\<And>a b. run a b total_steps = run_transition step a b total_steps"
    and step: "step \<in> {dissolve_step self cv total_steps,
      progressive_blur_step self cv total_steps, whip_pan_step self cv direction total_steps,
      comparison_step self cv total_steps}"
    by blast
  have tot: "\<And>j f g. \<exists>r. step j f g = Inr r"
    by (rule entry_step_total [OF assms(1,2) step])
  show "fst (run src1 src2 total_steps) = Returned PyNone
     \<and> length (out (snd (run src1 src2 total_steps))) = emitted_count total_steps src1 src2
     \<and> cap1 (snd (run src1 src2 total_steps)) = drop (pulled_count total_steps src1 src2) src1
     \<and> cap2 (snd (run src1 src2 total_steps)) = drop (pulled_count total_steps src1 src2) src2"
    unfolding run using run_total_facts [of step, OF tot] by blast
qed

theorem end_of_stream_truncates_witness:
  "fst (create_enhanced_dissolve_transition demo_engine plain_cv2
          [[[gray 0]], [[gray 1]], [[gray 2]]] [[[gray 9]]] 5) = Returned PyNone
   \<and> length (out (snd (create_whip_pan_transition demo_engine plain_cv2
          [[[gray 0]], [[gray 1]], [[gray 2]]] [[[gray 9]]] ''left'' 5))) = 1
   \<and> cap1 (snd (create_progressive_blur_transition demo_engine plain_cv2
          [[[gray 0]], [[gray 1]], [[gray 2]]] [[[gray 9]]] 5)) = [[[gray 2]]]
   \<and> cap2 (snd (create_comparison_demo demo_engine plain_cv2
          [[[gray 0]], [[gray 1]], [[gray 2]]] [[[gray 9]]] 5)) = []
   \<and> length (out (snd (create_comparison_demo demo_engine plain_cv2
          [[[gray 0]], [[gray 1]], [[gray 2]]] [[[gray 9]], [[gray 8]], [[gray 7]]] 2))) = 2"
  using end_of_stream_truncates [OF plain_cv2_keeps_shape, of 5 demo_engine "''left''"
      "[[[gray 0]], [[gray 1]], [[gray 2]]]" "[[[gray 9]]]"]
    end_of_stream_truncates [OF plain_cv2_keeps_shape, of 2 demo_engine "''left''"
      "[[[gray 0]], [[gray 1]], [[gray 2]]]" "[[[gray 9]], [[gray 8]], [[gray 7]]]"]
  by (simp add: entry_points_def emitted_count_def pulled_count_def)

text \<open>
  Claim C1, as stated, fails: a dissolve over two steps on one-frame sources emits one
  frame and returns \<open>None\<close>, not the count 1.
\<close>

theorem returns_count_counterexample:
  "fst (create_enhanced_dissolve_transition demo_engine plain_cv2 [[[gray 0]]] [[[gray 9]]] 2)
     = Returned PyNone
   \<and> length (out (snd (create_enhanced_dissolve_transition demo_engine plain_cv2
        [[[gray 0]]] [[[gray 9]]] 2))) = 1
   \<and> fst (create_enhanced_dissolve_transition demo_engine plain_cv2 [[[gray 0]]] [[[gray 9]]] 2)
     \<noteq> Returned (PyInt 1)"
proof -
  have tot: "\<And>j f g. \<exists>r. dissolve_step demo_engine plain_cv2 2 j f g = Inr r"
    by (rule dissolve_step_total [OF plain_cv2_keeps_shape]) simp
  show ?thesis
    unfolding create_enhanced_dissolve_transition_def
    using run_total_facts(1,2) [of "dissolve_step demo_engine plain_cv2 2", OF tot]
    by (simp add: emitted_count_def)
qed

text \<open>
  Claim C1, amended. Every entry point, called with two frame sources and at least two
  steps, returns no value (\<open>None\<close>); the number of frames it has emitted to the sink is
  the smallest of the step count and the lengths of the two sources, so it is less than
  the step count on early end-of-stream.
\<close>

theorem entry_points_emit_count:
  assumes "cv2_keeps_shape self cv" "2 \<le> total_steps"
  shows "\<forall>run \<in> set (entry_points self cv direction).
     fst (run src1 src2 total_steps) = Returned PyNone
     \<and> int (length (out (snd (run src1 src2 total_steps))))
         = min total_steps (min (int (length src1)) (int (length src2)))"
proof
  fix run
  assume "run \<in> set (entry_points self cv direction)"
  from entry_points_step [OF this, of total_steps]
  obtain step where run: "\<And>a b. run a b total_steps = run_transition step a b total_steps"
    and step: "step \<in> {dissolve_step self cv total_steps,
      progressive_blur_step self cv total_steps, whip_pan_step self cv direction total_steps,
      comparison_step self cv total_steps}"
    by blast
  from assms(2) have ne: "total_steps \<noteq> 1" by simp
  have tot: "\<And>j f g. \<exists>r. step j f g = Inr r"
    by (rule entry_step_total [OF assms(1) ne step])
  have "int (emitted_count total_steps src1 src2)
      = min total_steps (min (int (length src1)) (int (length src2)))"
    unfolding emitted_count_def of_nat_min using assms(2) by simp
  then show "fst (run src1 src2 total_steps) = Returned PyNone
     \<and> int (length (out (snd (run src1 src2 total_steps))))
         = min total_steps (min (int (length src1)) (int (length src2)))"
    unfolding run using run_total_facts(1,2) [of step, OF tot] by simp
qed

theorem entry_points_emit_count_witness:
  "fst (create_progressive_blur_transition demo_engine plain_cv2
          [[[gray 0]], [[gray 1]]] [[[gray 9]], [[gray 8]], [[gray 7]]] 3) = Returned PyNone
   \<and> length (out (snd (create_progressive_blur_transition demo_engine plain_cv2
          [[[gray 0]], [[gray 1]]] [[[gray 9]], [[gray 8]], [[gray 7]]] 3))) = 2
   \<and> fst (create_comparison_demo demo_engine plain_cv2
          [[[gray 0]], [[gray 1]]] [[[gray 9]], [[gray 8]], [[gray 7]]] 3) = Returned PyNone"
  using entry_points_emit_count [OF plain_cv2_keeps_shape, of 3 demo_engine "''up''"
      "[[[gray 0]], [[gray 1]]]" "[[[gray 9]], [[gray 8]], [[gray 7]]]"]
  by (simp add: entry_points_def)

text \<open>
  Claim C2, as stated, fails: a dissolve called with zero steps does not fail. It returns
  normally, with both sources untouched and nothing emitted.
\<close>

theorem invalid_step_count_counterexample:
  "create_enhanced_dissolve_transition demo_engine plain_cv2 [[[gray 0]]] [[[gray 9]]] 0
     = (Returned PyNone, \<lparr>cap1 = [[[gray 0]]], cap2 = [[[gray 9]]], out = []\<rparr>)
   \<and> fst (create_enhanced_dissolve_transition demo_engine plain_cv2 [[[gray 0]]] [[[gray 9]]] 0)
     \<noteq> Raised ZeroDivisionError"
  by (simp add: create_enhanced_dissolve_transition_def run_nonpositive)

text \<open>
  Claim C2, amended. No entry point validates the step count, and none fails on a step
  count of zero or less: the call returns normally, having pulled no frame from either
  source and emitted none.
\<close>

theorem nonpositive_step_count_returns:
  "\<forall>run \<in> set (entry_points self cv direction).
     total_steps \<le> 0 \<longrightarrow>
       run src1 src2 total_steps = (Returned PyNone, \<lparr>cap1 = src1, cap2 = src2, out = []\<rparr>)"
proof
  fix run
  assume mem: "run \<in> set (entry_points self cv direction)"
  from entry_points_step [OF mem, of total_steps] obtain step where
    run: "\<And>a b. run a b total_steps = run_transition step a b total_steps"
    by blast
  show "total_steps \<le> 0 \<longrightarrow>
        run src1 src2 total_steps = (Returned PyNone, \<lparr>cap1 = src1, cap2 = src2, out = []\<rparr>)"
    by (simp add: run run_nonpositive)
qed

theorem nonpositive_step_count_returns_witness:
  "create_whip_pan_transition demo_engine plain_cv2 [[[gray 0]]] [[[gray 9]]] ''down'' (- 4)
     = (Returned PyNone, \<lparr>cap1 = [[[gray 0]]], cap2 = [[[gray 9]]], out = []\<rparr>)
   \<and> create_comparison_demo demo_engine plain_cv2 [[[gray 1]], [[gray 0]]] [[[gray 2]]] 0
     = (Returned PyNone, \<lparr>cap1 = [[[gray 1]], [[gray 0]]], cap2 = [[[gray 2]]], out = []\<rparr>)"
  using nonpositive_step_count_returns [of demo_engine plain_cv2 "''down''" "- 4"
      "[[[gray 0]]]" "[[[gray 9]]]"]
    nonpositive_step_count_returns [of demo_engine plain_cv2 "''down''" 0
      "[[[gray 1]], [[gray 0]]]" "[[[gray 2]]]"]
  by (simp add: entry_points_def)

end
